theory Spec2Isabelle
  imports Complex_Main "HOL-Library.Multiset"
begin

section \<open>Platform and library primitives\<close>

text \<open>
  The two programs (the manual timing program \<^verbatim>\<open>IntelParSTL.cpp\<close> and the benchmark
  registrations of \<^verbatim>\<open>IntelCompilerTests.cpp\<close>) are thin layers over the standard
  library.  What the library and the machine provide is collected in one record that
  every definition takes as a parameter; nothing is assumed about its fields.
  The type \<open>'d\<close> stands for the floating-point values (a \<^verbatim>\<open>float\<close> is identified
  with the \<^verbatim>\<open>double\<close> it widens to), \<open>'g\<close> for the state of a
  \<^verbatim>\<open>std::default_random_engine\<close> and \<open>'tm\<close> for an elapsed time in milliseconds.
  Arithmetic on \<open>'d\<close> uses the syntactic classes only, so no algebraic law
  (associativity, for instance) is available to any proof.  The field \<open>d_lit\<close> gives the
  floating-point value of a literal or constant of the source, \<open>d_of_uint\<close> the
  conversion of an \<^verbatim>\<open>unsigned int\<close>, \<open>steady_clock k\<close> the \<open>k\<close>-th reading of the
  clock in ticks and \<open>duration_ms\<close> the conversion of a tick count to milliseconds.
  \<open>engine_draw\<close> is one call of the engine, \<open>generate_canonical\<close> the library's draw
  of a floating-point value from an engine.  \<open>max_size b\<close> is \<^verbatim>\<open>max_size()\<close> of a vector
  whose elements take \<open>b\<close> bytes, and \<open>allocates held bytes\<close> says whether the allocator
  grants \<open>bytes\<close> more bytes to a program whose vectors hold \<open>held\<close> bytes.
\<close>

record ('d, 'g, 'tm) platform =
  d_sin :: "'d \<Rightarrow> 'd"
  d_cos :: "'d \<Rightarrow> 'd"
  d_sqrt :: "'d \<Rightarrow> 'd"
  d_lit :: "real \<Rightarrow> 'd"
  d_of_uint :: "nat \<Rightarrow> 'd"
  engine_draw :: "'g \<Rightarrow> nat \<times> 'g"
  generate_canonical :: "'g \<Rightarrow> 'd \<times> 'g"
  steady_clock :: "nat \<Rightarrow> int"
  duration_ms :: "int \<Rightarrow> 'tm"
  max_size :: "nat \<Rightarrow> nat"
  allocates :: "nat \<Rightarrow> nat \<Rightarrow> bool"

text \<open>
  Undefined behaviour and uncaught exceptions are values: an access outside a vector, a
  vector larger than \<^verbatim>\<open>max_size()\<close> (\<^verbatim>\<open>std::length_error\<close>), an allocation the
  allocator refuses (\<^verbatim>\<open>std::bad_alloc\<close>).
\<close>

datatype error = Out_Of_Range | Length_Error | Bad_Alloc

text \<open>
  The state shared by everything that runs: the decisions the parallel scheduler is
  going to take, the number of clock readings made so far, and the
  \<^verbatim>\<open>thread_local static\<close> engine of each of the three generator functions (the
  engines of the worker threads are folded into one stream of draws).
\<close>

record 'g env =
  tape :: "nat list"
  ticks :: nat
  rd_float :: 'g
  rd_int :: 'g
  rd_number :: 'g

subsection \<open>Execution policies\<close>

datatype policy = Seq | Unseq | Par | Par_Unseq

fun next_choice :: "nat list \<Rightarrow> nat \<times> nat list" where
  "next_choice [] = (0, [])"
| "next_choice (c # cs) = (c, cs)"

text \<open>
  Under a policy other than \<open>Seq\<close> the library decides in which order the indices of a
  range are processed.  The scheduler reads one decision per step and takes the pending
  index at that position; every order of the range is the outcome of some tape.
\<close>

function pick_order :: "nat list \<Rightarrow> nat list \<Rightarrow> nat list \<times> nat list" where
  "pick_order tp [] = ([], tp)"
| "pick_order tp (p # ps) =
     (let (c, tp1) = next_choice tp;
          i = (p # ps) ! (c mod length (p # ps));
          (rest, tp2) = pick_order tp1 (remove1 i (p # ps))
      in (i # rest, tp2))"
  by pat_completeness auto
termination
proof (relation "measure (\<lambda>(tp, pending). length pending)")
  show "wf (measure (\<lambda>(tp, pending). length pending))"
    by simp
next
  fix tp :: "nat list" and p :: nat and ps x y i
  assume "i = (p # ps) ! (y mod length (p # ps))"
  then have "i \<in> set (p # ps)"
    by (metis length_greater_0_conv list.distinct(1) mod_less_divisor nth_mem)
  then have "length (remove1 i (p # ps)) < length (p # ps)"
    by (subst length_remove1) simp
  then show "((x, remove1 i (p # ps)), (tp, p # ps)) \<in> measure (\<lambda>(tp, pending). length pending)"
    by simp
qed

definition exec_order :: "policy \<Rightarrow> nat list \<Rightarrow> nat \<Rightarrow> nat list \<times> nat list" where
  "exec_order pol tp n = (case pol of Seq \<Rightarrow> ([0..<n], tp) | _ \<Rightarrow> pick_order tp [0..<n])"

subsection \<open>std::transform\<close>

fun apply_in_order :: "('a \<Rightarrow> error + 'b) \<Rightarrow> 'a list \<Rightarrow> nat list \<Rightarrow> 'b list \<Rightarrow> error + 'b list" where
  "apply_in_order f xs [] out = Inr out"
| "apply_in_order f xs (i # js) out =
     (case f (xs ! i) of Inl e \<Rightarrow> Inl e | Inr v \<Rightarrow> apply_in_order f xs js (out[i := v]))"

text \<open>
  \<^verbatim>\<open>std::transform(policy, first, last, result, op)\<close>: element \<open>i\<close> of the output
  range is assigned \<open>op\<close> of element \<open>i\<close> of the input range, in the order of the policy.
  Writing past the end of the output is an error.
\<close>

definition std_transform ::
  "policy \<Rightarrow> ('a \<Rightarrow> error + 'b) \<Rightarrow> 'a list \<Rightarrow> 'b list \<Rightarrow> nat list \<Rightarrow> error + ('b list \<times> nat list)" where
  "std_transform pol f xs out tp =
     (if length out < length xs then Inl Out_Of_Range
      else (let (ord, tp1) = exec_order pol tp (length xs)
            in case apply_in_order f xs ord out of
                 Inl e \<Rightarrow> Inl e
               | Inr out1 \<Rightarrow> Inr (out1, tp1)))"

section \<open>The trigonometric transform\<close>

text \<open>The lambda \<^verbatim>\<open>[](double v) { return std::sqrt(std::sin(v)*std::cos(v)); }\<close>.\<close>

definition trig_fn :: "('d::times, 'g, 'tm) platform \<Rightarrow> 'd \<Rightarrow> 'd" where
  "trig_fn P v = d_sqrt P (d_sin P v * d_cos P v)"

text \<open>The call of \<^verbatim>\<open>std::transform\<close> shared by \<^verbatim>\<open>TestTrig\<close> and \<^verbatim>\<open>BM_Trigonometry\<close>.\<close>

definition trig_transform ::
  "policy \<Rightarrow> ('d::times, 'g, 'tm) platform \<Rightarrow> 'd list \<Rightarrow> 'd list \<Rightarrow> nat list \<Rightarrow> error + ('d list \<times> nat list)" where
  "trig_transform pol P vec_in vec_out tp = std_transform pol (\<lambda>v. Inr (trig_fn P v)) vec_in vec_out tp"

section \<open>Random value generators\<close>

text \<open>
  The distributions belong to the library.  Their stand-ins follow its documentation:
  \<^verbatim>\<open>std::uniform_real_distribution(a, b)\<close> scales a canonical draw (documented to lie
  in \<open>[0, 1)\<close>) into the interval from \<open>a\<close> to \<open>b\<close>, and
  \<^verbatim>\<open>std::uniform_int_distribution(a, b)\<close> maps a draw of the engine onto the
  \<open>b - a + 1\<close> integers from \<open>a\<close> to \<open>b\<close>.
\<close>

definition uniform_real_distribution ::
  "('d::{plus,minus,times}, 'g, 'tm) platform \<Rightarrow> 'd \<Rightarrow> 'd \<Rightarrow> 'g \<Rightarrow> 'd \<times> 'g" where
  "uniform_real_distribution P a b rd =
     (let (u, rd1) = generate_canonical P rd in (a + (b - a) * u, rd1))"

definition uniform_int_distribution ::
  "('d, 'g, 'tm) platform \<Rightarrow> int \<Rightarrow> int \<Rightarrow> 'g \<Rightarrow> int \<times> 'g" where
  "uniform_int_distribution P a b rd =
     (let (r, rd1) = engine_draw P rd in (a + int (r mod nat (b - a + 1)), rd1))"

text \<open>
  Each generator owns an engine, builds a distribution over the given bounds and draws
  once from it.
\<close>

definition GenRandomFloat ::
  "('d::{plus,minus,times}, 'g, 'tm) platform \<Rightarrow> 'd \<Rightarrow> 'd \<Rightarrow> ('g, 'z) env_scheme
     \<Rightarrow> 'd \<times> ('g, 'z) env_scheme" where
  "GenRandomFloat P lower upper e =
     (let (v, rd) = uniform_real_distribution P lower upper (rd_float e) in (v, e\<lparr>rd_float := rd\<rparr>))"

definition GenRandomInt ::
  "('d, 'g, 'tm) platform \<Rightarrow> int \<Rightarrow> int \<Rightarrow> ('g, 'z) env_scheme \<Rightarrow> int \<times> ('g, 'z) env_scheme" where
  "GenRandomInt P lower upper e =
     (let (v, rd) = uniform_int_distribution P lower upper (rd_int e) in (v, e\<lparr>rd_int := rd\<rparr>))"

definition random_number_generator ::
  "('d::{zero,one,plus,minus,times}, 'g, 'tm) platform \<Rightarrow> ('g, 'z) env_scheme
     \<Rightarrow> 'd \<times> ('g, 'z) env_scheme" where
  "random_number_generator P e =
     (let (v, rd) = uniform_real_distribution P 0 1 (rd_number e) in (v, e\<lparr>rd_number := rd\<rparr>))"

subsection \<open>std::generate\<close>

fun assign_in_order :: "('s \<Rightarrow> 'a \<times> 's) \<Rightarrow> nat list \<Rightarrow> 'a list \<Rightarrow> 's \<Rightarrow> 'a list \<times> 's" where
  "assign_in_order gen [] xs s = (xs, s)"
| "assign_in_order gen (i # js) xs s =
     (let (v, s1) = gen s in assign_in_order gen js (xs[i := v]) s1)"

text \<open>
  \<^verbatim>\<open>std::generate(policy, first, last, gen)\<close> assigns one call of \<open>gen\<close> to every
  element; without a policy argument the order is that of \<open>Seq\<close>.
\<close>

definition std_generate ::
  "policy \<Rightarrow> (('g, 'z) env_scheme \<Rightarrow> 'a \<times> ('g, 'z) env_scheme) \<Rightarrow> 'a list \<Rightarrow> ('g, 'z) env_scheme
     \<Rightarrow> 'a list \<times> ('g, 'z) env_scheme" where
  "std_generate pol gen xs e =
     (let (ord, tp1) = exec_order pol (tape e) (length xs)
      in assign_in_order gen ord xs (e\<lparr>tape := tp1\<rparr>))"

text \<open>
  \<^verbatim>\<open>std::vector<T> v(n, x)\<close>, for elements of \<open>elem\<close> bytes, in a program whose vectors
  already hold \<open>held\<close> bytes: \<^verbatim>\<open>std::length_error\<close> above \<^verbatim>\<open>max_size()\<close>, then
  \<^verbatim>\<open>std::bad_alloc\<close> when the allocator refuses the \<open>n * elem\<close> bytes; no exception is
  caught anywhere.  A vector of no elements allocates nothing.  The buffers whose size
  comes from the input are the ones checked against the allocator; the five results and
  the set of times of a trial are small and taken as granted.
\<close>

definition new_vector :: "('d, 'g, 'tm) platform \<Rightarrow> nat \<Rightarrow> nat \<Rightarrow> nat \<Rightarrow> 'a \<Rightarrow> error + 'a list" where
  "new_vector P held elem n x =
     (if max_size P elem < n then Inl Length_Error
      else if n \<noteq> 0 \<and> \<not> allocates P held (n * elem) then Inl Bad_Alloc
      else Inr (replicate n x))"

text \<open>The copy constructor \<^verbatim>\<open>std::vector out(vec)\<close> allocates as many bytes again.\<close>

definition copy_vector :: "('d, 'g, 'tm) platform \<Rightarrow> nat \<Rightarrow> nat \<Rightarrow> 'a list \<Rightarrow> error + 'a list" where
  "copy_vector P held elem xs =
     (if xs \<noteq> [] \<and> \<not> allocates P held (length xs * elem) then Inl Bad_Alloc else Inr xs)"

section \<open>The timed trial runner\<close>

definition RUN_TIMES :: nat where
  "RUN_TIMES = 5"

text \<open>\<^verbatim>\<open>std::set<double>\<close>: ascending, and a value equivalent to a member is not inserted.\<close>

fun set_insert :: "'a::linorder \<Rightarrow> 'a list \<Rightarrow> 'a list" where
  "set_insert x [] = [x]"
| "set_insert x (y # ys) =
     (if x < y then x # y # ys
      else if y < x then y # set_insert x ys
      else y # ys)"

text \<open>What is sent to \<^verbatim>\<open>std::cout\<close>, one item for each operand of \<^verbatim>\<open><<\<close>.\<close>

datatype ('tm, 'r) item = Text string | Time 'tm | Value 'r | Count nat

definition now :: "('d, 'g, 'tm) platform \<Rightarrow> ('g, 'z) env_scheme \<Rightarrow> int \<times> ('g, 'z) env_scheme" where
  "now P e = (steady_clock P (ticks e), e\<lparr>ticks := Suc (ticks e)\<rparr>)"

function RunAndMeasure_loop ::
  "('d, 'g, 'tm::linorder) platform \<Rightarrow> (('g, 'z) env_scheme \<Rightarrow> error + ('r \<times> ('g, 'z) env_scheme))
     \<Rightarrow> nat \<Rightarrow> 'tm list \<Rightarrow> 'r list \<Rightarrow> ('g, 'z) env_scheme
     \<Rightarrow> error + ('tm list \<times> 'r list \<times> ('g, 'z) env_scheme)" where
  "RunAndMeasure_loop P func i tms results e =
     (if i < RUN_TIMES then
        (let (start, e1) = now P e
         in case func e1 of
              Inl err \<Rightarrow> Inl err
            | Inr (ret, e2) \<Rightarrow>
                (let (stop, e3) = now P e2
                 in RunAndMeasure_loop P func (i + 1)
                      (set_insert (duration_ms P (stop - start)) tms) (results[i := ret]) e3))
      else Inr (tms, results, e))"
  by pat_completeness auto
termination
  by (relation "measure (\<lambda>(P, func, i, tms, results, e). RUN_TIMES - i)") auto

definition RunAndMeasure ::
  "('d, 'g, 'tm::linorder) platform \<Rightarrow> string
     \<Rightarrow> (('g, 'z) env_scheme \<Rightarrow> error + ('r \<times> ('g, 'z) env_scheme))
     \<Rightarrow> ('g, 'z) env_scheme \<Rightarrow> error + (('tm, 'r) item list \<times> ('g, 'z) env_scheme)" where
  "RunAndMeasure P title func e =
     (case func e of
        Inl err \<Rightarrow> Inl err
      | Inr (first, e0) \<Rightarrow>
          (case RunAndMeasure_loop P func 0 [] (replicate RUN_TIMES first) e0 of
             Inl err \<Rightarrow> Inl err
           | Inr (tms, results, e1) \<Rightarrow>
               (case (tms, results) of
                  (t # ts, r # rs) \<Rightarrow>
                    Inr ([Text title, Text ('':'' @ [CHR 0x09] @ '' ''), Time t, Text ''ms (max was '',
                          Time (last tms), Text '') '', Value r, Text [CHR 0x0A]], e1)
                | _ \<Rightarrow> Inl Out_Of_Range)))"

section \<open>The manual timing program\<close>

record ('d, 'g) trig_world = "'g env" +
  vec :: "'d list"
  out :: "'d list"

text \<open>
  The closure \<^verbatim>\<open>[&vec, &out] { std::transform(policy, ...); return out[0]; }\<close>.
  The namespaces \<^verbatim>\<open>pstl::execution\<close> and \<^verbatim>\<open>std::execution\<close> name the same policies.
  Reading \<^verbatim>\<open>out[0]\<close> of an empty vector is an access outside the vector.
\<close>

definition trig_lambda ::
  "policy \<Rightarrow> ('d::times, 'g, 'tm) platform \<Rightarrow> ('d, 'g, 'z) trig_world_scheme
     \<Rightarrow> error + ('d \<times> ('d, 'g, 'z) trig_world_scheme)" where
  "trig_lambda pol P s =
     (case trig_transform pol P (vec s) (out s) (tape s) of
        Inl err \<Rightarrow> Inl err
      | Inr (out1, tp1) \<Rightarrow>
          (case out1 of
             [] \<Rightarrow> Inl Out_Of_Range
           | r # rs \<Rightarrow> Inr (r, s\<lparr>tape := tp1, out := out1\<rparr>)))"

definition trig_world_of :: "'g env \<Rightarrow> 'd list \<Rightarrow> 'd list \<Rightarrow> ('d, 'g) trig_world" where
  "trig_world_of e a b =
     \<lparr>tape = tape e, ticks = ticks e, rd_float = rd_float e, rd_int = rd_int e,
      rd_number = rd_number e, vec = a, out = b\<rparr>"

definition env_of :: "('g, 'z) env_scheme \<Rightarrow> 'g env" where
  "env_of s =
     \<lparr>tape = tape s, ticks = ticks s, rd_float = rd_float s, rd_int = rd_int s,
      rd_number = rd_number s\<rparr>"

text \<open>
  \<^verbatim>\<open>TestTrig\<close>: the buffer is filled with draws from \<open>[0, 0.5f * pi]\<close>, \<^verbatim>\<open>out\<close> starts
  as a copy of \<^verbatim>\<open>vec\<close>, and four trials follow.  A \<^verbatim>\<open>double\<close> takes 8 bytes; both
  vectors are released when the function returns.
\<close>

definition TestTrig ::
  "('d::{plus,minus,times}, 'g, 'tm::linorder) platform \<Rightarrow> nat \<Rightarrow> 'g env
     \<Rightarrow> error + (('tm, 'd) item list \<times> 'g env)" where
  "TestTrig P vecSize e =
     (case new_vector P 0 8 vecSize (d_lit P 0.5) of
        Inl err \<Rightarrow> Inl err
      | Inr vec0 \<Rightarrow>
          (let (vec1, e1) = std_generate Seq (GenRandomFloat P (d_lit P 0) (d_lit P (0.5 * pi))) vec0 e
           in case copy_vector P (vecSize * 8) 8 vec1 of
                Inl err \<Rightarrow> Inl err
              | Inr out0 \<Rightarrow>
          (let s0 = trig_world_of e1 vec1 out0;
               header = [Text (''sqrt(sin*cos):'' @ [CHR 0x0A])]
           in case RunAndMeasure P ''pstl::execution::seq'' (trig_lambda Seq P) s0 of
                Inl err \<Rightarrow> Inl err
              | Inr (line1, s1) \<Rightarrow>
           (case RunAndMeasure P ''pstl::execution::par'' (trig_lambda Par P) s1 of
                Inl err \<Rightarrow> Inl err
              | Inr (line2, s2) \<Rightarrow>
           (case RunAndMeasure P ''std::transform seq'' (trig_lambda Seq P) s2 of
                Inl err \<Rightarrow> Inl err
              | Inr (line3, s3) \<Rightarrow>
           (case RunAndMeasure P ''std::transform par'' (trig_lambda Par P) s3 of
                Inl err \<Rightarrow> Inl err
              | Inr (line4, s4) \<Rightarrow>
                  Inr (header @ line1 @ line2 @ line3 @ line4, env_of s4)))))))"

subsection \<open>std::transform_reduce\<close>

text \<open>
  \<^verbatim>\<open>std::transform_reduce(policy, first1, last1, first2, init, reduce, transform)\<close>.
  Under \<open>Seq\<close> the products are folded from the left, starting from \<open>init\<close>.  Under
  the other policies the range is cut where the scheduler decides, the part after the
  cut is reduced on its own and the two partial results are combined: the grouping of
  the additions differs, the operands do not.
\<close>

definition std_transform_reduce ::
  "policy \<Rightarrow> 'a list \<Rightarrow> 'a list \<Rightarrow> 'a \<Rightarrow> ('a \<Rightarrow> 'a \<Rightarrow> 'a) \<Rightarrow> ('a \<Rightarrow> 'a \<Rightarrow> 'a) \<Rightarrow> nat list
     \<Rightarrow> error + ('a \<times> nat list)" where
  "std_transform_reduce pol xs ys init red tr tp =
     (if length ys < length xs then Inl Out_Of_Range
      else (let prods = map2 tr xs ys
            in case pol of
                 Seq \<Rightarrow> Inr (foldl red init prods, tp)
               | _ \<Rightarrow>
                   (let (c, tp1) = next_choice tp;
                        k = c mod (length prods + 1);
                        left = foldl red init (take k prods)
                    in case drop k prods of
                         [] \<Rightarrow> Inr (left, tp1)
                       | p # ps \<Rightarrow> Inr (red left (foldl red p ps), tp1))))"

record ('d, 'g) dot_world = "'g env" +
  v1 :: "'d list"
  v2 :: "'d list"

text \<open>The closure \<^verbatim>\<open>[&v1, &v2] { double res = std::transform_reduce(...); return res; }\<close>.\<close>

definition dot_lambda ::
  "policy \<Rightarrow> ('d::{zero,plus,times}, 'g, 'z) dot_world_scheme
     \<Rightarrow> error + ('d \<times> ('d, 'g, 'z) dot_world_scheme)" where
  "dot_lambda pol s =
     (case std_transform_reduce pol (v1 s) (v2 s) 0 (+) (*) (tape s) of
        Inl err \<Rightarrow> Inl err
      | Inr (res, tp1) \<Rightarrow> Inr (res, s\<lparr>tape := tp1\<rparr>))"

definition dot_world_of :: "'g env \<Rightarrow> 'd list \<Rightarrow> 'd list \<Rightarrow> ('d, 'g) dot_world" where
  "dot_world_of e a b =
     \<lparr>tape = tape e, ticks = ticks e, rd_float = rd_float e, rd_int = rd_int e,
      rd_number = rd_number e, v1 = a, v2 = b\<rparr>"

definition TestDotProduct ::
  "('d::{zero,one,plus,minus,times}, 'g, 'tm::linorder) platform \<Rightarrow> nat \<Rightarrow> 'g env
     \<Rightarrow> error + (('tm, 'd) item list \<times> 'g env)" where
  "TestDotProduct P vecSize e =
     (let header = [Text (''dot product:'' @ [CHR 0x0A])]
      in case new_vector P 0 8 vecSize 0 of
           Inl err \<Rightarrow> Inl err
         | Inr a0 \<Rightarrow>
      (case new_vector P (vecSize * 8) 8 vecSize 0 of
           Inl err \<Rightarrow> Inl err
         | Inr b0 \<Rightarrow>
          (let (a1, e1) = std_generate Par (random_number_generator P) a0 e;
               (b1, e2) = std_generate Par (random_number_generator P) b0 e1;
               s0 = dot_world_of e2 a1 b1
           in case RunAndMeasure P ''pstl::execution::seq'' (dot_lambda Seq) s0 of
                Inl err \<Rightarrow> Inl err
              | Inr (line1, s1) \<Rightarrow>
           (case RunAndMeasure P ''pstl::execution::par'' (dot_lambda Par) s1 of
                Inl err \<Rightarrow> Inl err
              | Inr (line2, s2) \<Rightarrow>
           (case RunAndMeasure P ''std::execution::seq'' (dot_lambda Seq) s2 of
                Inl err \<Rightarrow> Inl err
              | Inr (line3, s3) \<Rightarrow>
           (case RunAndMeasure P ''std::execution::par'' (dot_lambda Par) s3 of
                Inl err \<Rightarrow> Inl err
              | Inr (line4, s4) \<Rightarrow>
                  Inr (header @ line1 @ line2 @ line3 @ line4, env_of s4)))))))"

subsection \<open>Process entry\<close>

text \<open>
  \<^verbatim>\<open>atoi\<close>: leading white space, an optional sign, then decimal digits up to the first
  character that is not one; no digits give 0.  It is computed as
  \<^verbatim>\<open>(int) strtol(str, NULL, 10)\<close>, as in glibc: a value outside \<^verbatim>\<open>long\<close> (64 bits)
  saturates, and the conversion to \<^verbatim>\<open>int\<close> keeps the low 32 bits.
\<close>

text \<open>The conversion of an \<^verbatim>\<open>int64_t\<close> (or \<^verbatim>\<open>long\<close>) to \<^verbatim>\<open>int\<close>.\<close>

definition int_of_int64 :: "int \<Rightarrow> int" where
  "int_of_int64 i = signed_take_bit 31 i"

definition is_space :: "char \<Rightarrow> bool" where
  "is_space c = (of_char c \<in> {9, 10, 11, 12, 13, 32 :: nat})"

definition is_digit :: "char \<Rightarrow> bool" where
  "is_digit c = (48 \<le> (of_char c :: nat) \<and> (of_char c :: nat) \<le> 57)"

fun atoi_digits :: "int \<Rightarrow> string \<Rightarrow> int" where
  "atoi_digits acc [] = acc"
| "atoi_digits acc (c # cs) =
     (if is_digit c then atoi_digits (10 * acc + (of_char c - 48)) cs else acc)"

definition strtol :: "string \<Rightarrow> int" where
  "strtol str =
     (let s1 = dropWhile is_space str;
          r = (case s1 of
                 [] \<Rightarrow> 0
               | c # cs \<Rightarrow>
                   if c = CHR ''-'' then - atoi_digits 0 cs
                   else if c = CHR ''+'' then atoi_digits 0 cs
                   else atoi_digits 0 s1)
      in max (- (2 ^ 63)) (min (2 ^ 63 - 1) r))"

definition atoi :: "string \<Rightarrow> int" where
  "atoi str = int_of_int64 (strtol str)"

text \<open>The conversion of a signed integer to \<^verbatim>\<open>size_t\<close> (64 bits).\<close>

definition size_t_of_int :: "int \<Rightarrow> nat" where
  "size_t_of_int i = nat (i mod 2 ^ 64)"

text \<open>\<^verbatim>\<open>const size_t vecSize = argc > 1 ? atoi(argv[1]) : 6000000;\<close>\<close>

definition parse_vecSize :: "string list \<Rightarrow> nat" where
  "parse_vecSize argv = (if length argv > 1 then size_t_of_int (atoi (argv ! 1)) else 6000000)"

text \<open>\<^verbatim>\<open>int step = argc > 2 ? atoi(argv[2]) : 0;\<close>\<close>

definition parse_step :: "string list \<Rightarrow> int" where
  "parse_step argv = (if length argv > 2 then atoi (argv ! 2) else 0)"

text \<open>The result of \<open>main\<close> is the exit code, what was printed, and the final state.\<close>

definition main ::
  "('d::{zero,one,plus,minus,times}, 'g, 'tm::linorder) platform \<Rightarrow> string list \<Rightarrow> 'g env
     \<Rightarrow> error + (int \<times> ('tm, 'd) item list \<times> 'g env)" where
  "main P argv e =
     (let vecSize = parse_vecSize argv;
          step = parse_step argv
      in case (if step = 0 \<or> step = 2 then TestTrig P vecSize e else Inr ([], e)) of
           Inl err \<Rightarrow> Inl err
         | Inr (printed1, e1) \<Rightarrow>
        (case (if step = 0 \<or> step = 3 then TestDotProduct P vecSize e1 else Inr ([], e1)) of
           Inl err \<Rightarrow> Inl err
         | Inr (printed2, e2) \<Rightarrow>
             Inr (0, [Count vecSize, Text [CHR 0x0A]] @ printed1 @ printed2, e2)))"

section \<open>The registered benchmarks\<close>

text \<open>
  \<^verbatim>\<open>for (auto _ : state)\<close>: the framework decides how often the body runs.
\<close>

fun state_loop :: "nat \<Rightarrow> ('s \<Rightarrow> error + 's) \<Rightarrow> 's \<Rightarrow> error + 's" where
  "state_loop 0 body s = Inr s"
| "state_loop (Suc k) body s =
     (case body s of Inl err \<Rightarrow> Inl err | Inr s1 \<Rightarrow> state_loop k body s1)"

definition trig_body ::
  "policy \<Rightarrow> ('d::times, 'g, 'tm) platform \<Rightarrow> ('d, 'g, 'z) trig_world_scheme
     \<Rightarrow> error + ('d, 'g, 'z) trig_world_scheme" where
  "trig_body pol P s =
     (case trig_transform pol P (vec s) (out s) (tape s) of
        Inl err \<Rightarrow> Inl err
      | Inr (out1, tp1) \<Rightarrow> Inr (s\<lparr>tape := tp1, out := out1\<rparr>))"

definition BM_Trigonometry ::
  "policy \<Rightarrow> ('d::{plus,minus,times}, 'g, 'tm) platform \<Rightarrow> nat \<Rightarrow> nat \<Rightarrow> 'g env
     \<Rightarrow> error + ('d, 'g) trig_world" where
  "BM_Trigonometry execution_policy P range0 iterations e =
     (case new_vector P 0 8 range0 (d_lit P 0.5) of
        Inl err \<Rightarrow> Inl err
      | Inr vec0 \<Rightarrow>
          (let (vec1, e1) = std_generate Seq (GenRandomFloat P (d_lit P 0) (d_lit P (0.5 * pi))) vec0 e
           in case copy_vector P (range0 * 8) 8 vec1 of
                Inl err \<Rightarrow> Inl err
              | Inr out0 \<Rightarrow>
                  state_loop iterations (trig_body execution_policy P) (trig_world_of e1 vec1 out0)))"

subsection \<open>Sorting points\<close>

datatype 'd vec4 = Vec4 (vec4_x: 'd) (vec4_y: 'd) (vec4_z: 'd) (vec4_w: 'd)

text \<open>
  \<^verbatim>\<open>std::sort(policy, first, last, cmp)\<close>.  The algorithm belongs to the library; its
  stand-in places each element by comparisons with \<open>cmp\<close> alone.  The policy spreads the
  comparisons over threads and does not change which comparator decides.
\<close>

fun sort_insert :: "('a \<Rightarrow> 'a \<Rightarrow> bool) \<Rightarrow> 'a \<Rightarrow> 'a list \<Rightarrow> 'a list" where
  "sort_insert cmp a [] = [a]"
| "sort_insert cmp a (b # bs) =
     (if cmp a b then a # b # bs else b # sort_insert cmp a bs)"

fun std_sort :: "policy \<Rightarrow> ('a \<Rightarrow> 'a \<Rightarrow> bool) \<Rightarrow> 'a list \<Rightarrow> 'a list" where
  "std_sort pol cmp [] = []"
| "std_sort pol cmp (a # as) = sort_insert cmp a (std_sort pol cmp as)"

text \<open>The comparator \<^verbatim>\<open>[](const glm::vec4& a, const glm::vec4& b) { return a.x < b.x; }\<close>.\<close>

definition less_x :: "('d::ord) vec4 \<Rightarrow> 'd vec4 \<Rightarrow> bool" where
  "less_x a b = (vec4_x a < vec4_x b)"

definition gen_point ::
  "('d::{plus,minus,times}, 'g, 'tm) platform \<Rightarrow> ('g, 'z) env_scheme \<Rightarrow> 'd vec4 \<times> ('g, 'z) env_scheme" where
  "gen_point P e =
     (let (a, e1) = GenRandomFloat P (d_lit P (- 1)) (d_lit P 1) e;
          (b, e2) = GenRandomFloat P (d_lit P (- 1)) (d_lit P 1) e1;
          (c, e3) = GenRandomFloat P (d_lit P (- 1)) (d_lit P 1) e2
      in (Vec4 a b c (d_lit P 1), e3))"

definition sort_body :: "policy \<Rightarrow> ('d::ord) vec4 list \<Rightarrow> error + 'd vec4 list" where
  "sort_body pol points = Inr (std_sort pol less_x points)"

definition BM_SortPoints ::
  "policy \<Rightarrow> ('d::{ord,plus,minus,times}, 'g, 'tm) platform \<Rightarrow> nat \<Rightarrow> nat \<Rightarrow> 'g env
     \<Rightarrow> error + ('d vec4 list \<times> 'g env)" where
  "BM_SortPoints execution_policy P range0 iterations e =
     (case new_vector P 0 16 range0 (Vec4 (d_lit P 0) (d_lit P 1) (d_lit P 0) (d_lit P 1)) of
        Inl err \<Rightarrow> Inl err
      | Inr points0 \<Rightarrow>
          (let (points1, e1) = std_generate Seq (gen_point P) points0 e
           in case state_loop iterations (sort_body execution_policy) points1 of
                Inl err \<Rightarrow> Inl err
              | Inr points2 \<Rightarrow> Inr (points2, e1)))"

subsection \<open>Dot product\<close>

definition dot_body ::
  "policy \<Rightarrow> ('d::{zero,plus,times}, 'g, 'z) dot_world_scheme \<Rightarrow> error + ('d, 'g, 'z) dot_world_scheme" where
  "dot_body pol s =
     (case std_transform_reduce pol (v1 s) (v2 s) 0 (+) (*) (tape s) of
        Inl err \<Rightarrow> Inl err
      | Inr (res, tp1) \<Rightarrow> Inr (s\<lparr>tape := tp1\<rparr>))"

definition BM_DotProduct ::
  "policy \<Rightarrow> ('d::{zero,plus,minus,times}, 'g, 'tm) platform \<Rightarrow> nat \<Rightarrow> nat \<Rightarrow> 'g env
     \<Rightarrow> error + ('d, 'g) dot_world" where
  "BM_DotProduct execution_policy P range0 iterations e =
     (case new_vector P 0 8 range0 0 of
        Inl err \<Rightarrow> Inl err
      | Inr a0 \<Rightarrow>
     (case new_vector P (range0 * 8) 8 range0 0 of
        Inl err \<Rightarrow> Inl err
      | Inr b0 \<Rightarrow>
          (let (a1, e1) = std_generate Par (GenRandomFloat P (d_lit P (- 1)) (d_lit P 1)) a0 e;
               (b1, e2) = std_generate Par (GenRandomFloat P (d_lit P (- 1)) (d_lit P 1)) b0 e1
           in state_loop iterations (dot_body execution_policy) (dot_world_of e2 a1 b1))))"

subsection \<open>Index-driven pricing\<close>

record ('d, 'g) pricing_world = "'g env" +
  prices :: "'d list"
  quantities :: "nat list"
  discounts :: "'d list"
  profit :: "'d list"

text \<open>\<^verbatim>\<open>v[i]\<close> with a signed index: the index converts to \<^verbatim>\<open>size_t\<close>.\<close>

definition vec_get :: "'a list \<Rightarrow> int \<Rightarrow> error + 'a" where
  "vec_get xs i = (if size_t_of_int i < length xs then Inr (xs ! size_t_of_int i) else Inl Out_Of_Range)"

definition vec_set :: "'a list \<Rightarrow> int \<Rightarrow> 'a \<Rightarrow> error + 'a list" where
  "vec_set xs i v = (if size_t_of_int i < length xs then Inr (xs[size_t_of_int i := v]) else Inl Out_Of_Range)"

text \<open>The conversion of an \<^verbatim>\<open>int\<close> to \<^verbatim>\<open>unsigned int\<close>.\<close>

definition unsigned_of_int :: "int \<Rightarrow> nat" where
  "unsigned_of_int i = nat (i mod 2 ^ 32)"

text \<open>
  The first lambda, \<^verbatim>\<open>[&prices, &quantities, &discounts](int64_t i) { ... }\<close>, fills
  the three buffers at index \<open>i\<close>.
\<close>

definition populate ::
  "('d::{plus,minus,times}, 'g, 'tm) platform \<Rightarrow> int \<Rightarrow> ('d, 'g, 'z) pricing_world_scheme
     \<Rightarrow> error + ('d, 'g, 'z) pricing_world_scheme" where
  "populate P i s =
     (let (p, s1) = GenRandomFloat P (d_lit P 0.5) (d_lit P 100) s
      in case vec_set (prices s1) i p of
           Inl err \<Rightarrow> Inl err
         | Inr ps \<Rightarrow>
             (let (q, s2) = GenRandomInt P 1 100 (s1\<lparr>prices := ps\<rparr>)
              in case vec_set (quantities s2) i (unsigned_of_int q) of
                   Inl err \<Rightarrow> Inl err
                 | Inr qs \<Rightarrow>
                     (let (d, s3) = GenRandomFloat P (d_lit P 0) (d_lit P 0.5) (s2\<lparr>quantities := qs\<rparr>)
                      in case vec_set (discounts s3) i d of
                           Inl err \<Rightarrow> Inl err
                         | Inr ds \<Rightarrow> Inr (s3\<lparr>discounts := ds\<rparr>))))"

text \<open>
  The second lambda, \<^verbatim>\<open>[&prices, &quantities, &discounts](int i) { return (prices[i] *
  (1.0f - discounts[i]))*quantities[i]; }\<close>: its parameter is an \<^verbatim>\<open>int\<close>, the counting
  iterator yields \<^verbatim>\<open>int64_t\<close>.
\<close>

definition profit_fn ::
  "('d::{one,minus,times}, 'g, 'tm) platform \<Rightarrow> ('d, 'g, 'z) pricing_world_scheme \<Rightarrow> int \<Rightarrow> error + 'd" where
  "profit_fn P s i64 =
     (let i = int_of_int64 i64
      in case vec_get (prices s) i of
           Inl err \<Rightarrow> Inl err
         | Inr p \<Rightarrow>
             (case vec_get (discounts s) i of
                Inl err \<Rightarrow> Inl err
              | Inr d \<Rightarrow>
                  (case vec_get (quantities s) i of
                     Inl err \<Rightarrow> Inl err
                   | Inr q \<Rightarrow> Inr ((p * (1 - d)) * d_of_uint P q))))"

subsection \<open>std::for_each over a counting iterator\<close>

fun for_each_in_order :: "('a \<Rightarrow> 's \<Rightarrow> error + 's) \<Rightarrow> 'a list \<Rightarrow> nat list \<Rightarrow> 's \<Rightarrow> error + 's" where
  "for_each_in_order f xs [] s = Inr s"
| "for_each_in_order f xs (i # js) s =
     (case f (xs ! i) s of Inl err \<Rightarrow> Inl err | Inr s1 \<Rightarrow> for_each_in_order f xs js s1)"

definition std_for_each ::
  "policy \<Rightarrow> ('a \<Rightarrow> ('g, 'z) env_scheme \<Rightarrow> error + ('g, 'z) env_scheme) \<Rightarrow> 'a list
     \<Rightarrow> ('g, 'z) env_scheme \<Rightarrow> error + ('g, 'z) env_scheme" where
  "std_for_each pol f xs s =
     (let (ord, tp1) = exec_order pol (tape s) (length xs)
      in for_each_in_order f xs ord (s\<lparr>tape := tp1\<rparr>))"

text \<open>\<^verbatim>\<open>pstl::counting_iterator<int64_t>(0)\<close> up to \<^verbatim>\<open>pstl::counting_iterator<int64_t>(VecSize)\<close>.\<close>

definition counting_range :: "nat \<Rightarrow> int list" where
  "counting_range VecSize = map int [0..<VecSize]"

definition pricing_body ::
  "policy \<Rightarrow> ('d::{one,plus,minus,times}, 'g, 'tm) platform \<Rightarrow> nat \<Rightarrow> ('d, 'g, 'z) pricing_world_scheme
     \<Rightarrow> error + ('d, 'g, 'z) pricing_world_scheme" where
  "pricing_body pol P VecSize s =
     (case std_for_each pol (populate P) (counting_range VecSize) s of
        Inl err \<Rightarrow> Inl err
      | Inr s1 \<Rightarrow>
          (case std_transform pol (profit_fn P s1) (counting_range VecSize) (profit s1) (tape s1) of
             Inl err \<Rightarrow> Inl err
           | Inr (profit1, tp1) \<Rightarrow> Inr (s1\<lparr>tape := tp1, profit := profit1\<rparr>)))"

definition pricing_world_of ::
  "'g env \<Rightarrow> 'd list \<Rightarrow> nat list \<Rightarrow> 'd list \<Rightarrow> 'd list \<Rightarrow> ('d, 'g) pricing_world" where
  "pricing_world_of e ps qs ds pr =
     \<lparr>tape = tape e, ticks = ticks e, rd_float = rd_float e, rd_int = rd_int e,
      rd_number = rd_number e, prices = ps, quantities = qs, discounts = ds, profit = pr\<rparr>"

text \<open>
  The four buffers of \<^verbatim>\<open>BM_CountingIter\<close>: a \<^verbatim>\<open>double\<close> takes 8 bytes, an
  \<^verbatim>\<open>unsigned int\<close> 4.
\<close>

definition BM_CountingIter ::
  "policy \<Rightarrow> ('d::{zero,one,plus,minus,times}, 'g, 'tm) platform \<Rightarrow> nat \<Rightarrow> nat \<Rightarrow> 'g env
     \<Rightarrow> error + ('d, 'g) pricing_world" where
  "BM_CountingIter execution_policy P VecSize iterations e =
     (case new_vector P 0 8 VecSize 0 of
        Inl err \<Rightarrow> Inl err
      | Inr ps \<Rightarrow>
     (case new_vector P (VecSize * 8) 4 VecSize 0 of
        Inl err \<Rightarrow> Inl err
      | Inr qs \<Rightarrow>
     (case new_vector P (VecSize * 12) 8 VecSize 0 of
        Inl err \<Rightarrow> Inl err
      | Inr ds \<Rightarrow>
     (case new_vector P (VecSize * 20) 8 VecSize 0 of
        Inl err \<Rightarrow> Inl err
      | Inr pr \<Rightarrow>
          state_loop iterations (pricing_body execution_policy P VecSize)
            (pricing_world_of e ps qs ds pr)))))"

section \<open>Reference descriptions and probes\<close>

text \<open>
  One timed invocation as the specification describes it: read the clock, invoke, read
  the clock, and keep the elapsed time with the result.
\<close>

definition timed_call ::
  "('d, 'g, 'tm) platform \<Rightarrow> (('g, 'z) env_scheme \<Rightarrow> error + ('r \<times> ('g, 'z) env_scheme))
     \<Rightarrow> ('g, 'z) env_scheme \<Rightarrow> error + (('tm \<times> 'r) \<times> ('g, 'z) env_scheme)" where
  "timed_call P func e =
     (let (start, e1) = now P e
      in case func e1 of
           Inl err \<Rightarrow> Inl err
         | Inr (ret, e2) \<Rightarrow>
             (let (stop, e3) = now P e2 in Inr ((duration_ms P (stop - start), ret), e3)))"

fun timed_calls ::
  "('d, 'g, 'tm) platform \<Rightarrow> (('g, 'z) env_scheme \<Rightarrow> error + ('r \<times> ('g, 'z) env_scheme))
     \<Rightarrow> nat \<Rightarrow> ('g, 'z) env_scheme \<Rightarrow> error + (('tm \<times> 'r) list \<times> ('g, 'z) env_scheme)" where
  "timed_calls P func 0 e = Inr ([], e)"
| "timed_calls P func (Suc n) e =
     (case timed_call P func e of
        Inl err \<Rightarrow> Inl err
      | Inr (x, e1) \<Rightarrow>
          (case timed_calls P func n e1 of
             Inl err \<Rightarrow> Inl err
           | Inr (xs, e2) \<Rightarrow> Inr (x # xs, e2)))"

text \<open>
  The line of a trial, from the label and the (elapsed time, result) pairs of its timed
  invocations: the least time, the greatest time, and the result of the first pair.
\<close>

definition report_line :: "string \<Rightarrow> ('tm::linorder \<times> 'r) list \<Rightarrow> ('tm, 'r) item list" where
  "report_line title runs =
     [Text title, Text ('':'' @ [CHR 0x09] @ '' ''), Time (Min (set (map fst runs))),
      Text ''ms (max was '', Time (Max (set (map fst runs))), Text '') '',
      Value (snd (hd runs)), Text [CHR 0x0A]]"

text \<open>
  The allocator grants a test its two buffers of \<open>n\<close> elements of type \<^verbatim>\<open>double\<close>,
  one after the other, and \<open>n\<close> is at most \<^verbatim>\<open>max_size()\<close>.
\<close>

definition two_buffers_granted :: "('d, 'g, 'tm) platform \<Rightarrow> nat \<Rightarrow> bool" where
  "two_buffers_granted P n \<longleftrightarrow>
     n \<le> max_size P 8 \<and> (n = 0 \<or> (allocates P 0 (n * 8) \<and> allocates P (n * 8) (n * 8)))"

text \<open>The four buffers of the pricing computation all have the given size.\<close>

definition pricing_sizes :: "nat \<Rightarrow> ('d, 'g, 'z) pricing_world_scheme \<Rightarrow> bool" where
  "pricing_sizes n s \<longleftrightarrow>
     length (prices s) = n \<and> length (quantities s) = n \<and> length (discounts s) = n \<and> length (profit s) = n"

text \<open>A probe that counts the invocations of a computation.\<close>

record 'g counting_env = "'g env" +
  calls :: nat

definition counting ::
  "(('g, 'z) counting_env_scheme \<Rightarrow> error + ('r \<times> ('g, 'z) counting_env_scheme))
     \<Rightarrow> ('g, 'z) counting_env_scheme \<Rightarrow> error + ('r \<times> ('g, 'z) counting_env_scheme)" where
  "counting func e =
     (case func e of
        Inl err \<Rightarrow> Inl err
      | Inr (r, e1) \<Rightarrow> Inr (r, e1\<lparr>calls := Suc (calls e)\<rparr>))"

text \<open>Probes that record the input buffers each invocation of a closure starts from.\<close>

record ('d, 'g) observed_trig_world = "('d, 'g) trig_world" +
  seen_vec :: "'d list list"

definition observing_vec ::
  "(('d, 'g, 'z) observed_trig_world_scheme \<Rightarrow> error + ('r \<times> ('d, 'g, 'z) observed_trig_world_scheme))
     \<Rightarrow> ('d, 'g, 'z) observed_trig_world_scheme
     \<Rightarrow> error + ('r \<times> ('d, 'g, 'z) observed_trig_world_scheme)" where
  "observing_vec func s =
     (case func s of
        Inl err \<Rightarrow> Inl err
      | Inr (r, s1) \<Rightarrow> Inr (r, s1\<lparr>seen_vec := seen_vec s @ [vec s]\<rparr>))"

record ('d, 'g) observed_dot_world = "('d, 'g) dot_world" +
  seen_v1_v2 :: "('d list \<times> 'd list) list"

definition observing_v1_v2 ::
  "(('d, 'g, 'z) observed_dot_world_scheme \<Rightarrow> error + ('r \<times> ('d, 'g, 'z) observed_dot_world_scheme))
     \<Rightarrow> ('d, 'g, 'z) observed_dot_world_scheme
     \<Rightarrow> error + ('r \<times> ('d, 'g, 'z) observed_dot_world_scheme)" where
  "observing_v1_v2 func s =
     (case func s of
        Inl err \<Rightarrow> Inl err
      | Inr (r, s1) \<Rightarrow> Inr (r, s1\<lparr>seen_v1_v2 := seen_v1_v2 s @ [(v1 s, v2 s)]\<rparr>))"

subsection \<open>A concrete platform for the examples\<close>

text \<open>
  Real arithmetic, a linear congruential engine, a clock whose \<open>k\<close>-th reading is
  \<open>k\<^sup>2\<close> milliseconds (in nanoseconds), \<^verbatim>\<open>max_size()\<close> of a 64-bit address space and
  an allocator that grants 16 GiB in all.
\<close>

definition example_platform :: "(real, nat, real) platform" where
  "example_platform =
     \<lparr>d_sin = sin, d_cos = cos, d_sqrt = sqrt, d_lit = (\<lambda>r. r), d_of_uint = real,
      engine_draw = (\<lambda>g. (g, (16807 * g) mod 2147483647)),
      generate_canonical = (\<lambda>g. (real (g mod 1000) / 1000, (16807 * g) mod 2147483647)),
      steady_clock = (\<lambda>k. 1000000 * int k * int k),
      duration_ms = (\<lambda>t. real_of_int t / 1000000),
      max_size = (\<lambda>elem. (2 ^ 63 - 1) div elem),
      allocates = (\<lambda>held bytes. held + bytes \<le> 2 ^ 34)\<rparr>"

definition example_env :: "nat env" where
  "example_env = \<lparr>tape = [2, 0, 1], ticks = 0, rd_float = 1, rd_int = 1, rd_number = 1\<rparr>"

definition example_counting_env :: "nat counting_env" where
  "example_counting_env =
     \<lparr>tape = [2, 0, 1], ticks = 0, rd_float = 1, rd_int = 1, rd_number = 1, calls = 0\<rparr>"


definition example_observed_trig_world :: "(real, nat) observed_trig_world" where
  "example_observed_trig_world =
     \<lparr>tape = [2, 0, 1], ticks = 0, rd_float = 1, rd_int = 1, rd_number = 1,
      vec = [0, pi / 2], out = [0, pi / 2], seen_vec = []\<rparr>"

definition example_observed_dot_world :: "(real, nat) observed_dot_world" where
  "example_observed_dot_world =
     \<lparr>tape = [2, 0, 1], ticks = 0, rd_float = 1, rd_int = 1, rd_number = 1,
      v1 = [1, 2], v2 = [3, 4], seen_v1_v2 = []\<rparr>"

text \<open>A computation whose result changes from one invocation to the next.\<close>

definition ticks_so_far :: "('g, 'z) env_scheme \<Rightarrow> error + (nat \<times> ('g, 'z) env_scheme)" where
  "ticks_so_far e = Inr (ticks e, e)"

section \<open>Verification\<close>

declare RunAndMeasure_loop.simps [simp del]

subsection \<open>Scheduling and element-wise algorithms\<close>

lemma pick_order_mset: "mset (fst (pick_order tp ps)) = mset ps"
proof (induction tp ps rule: pick_order.induct)
  case (1 tp)
  then show ?case by simp
next
  case (2 tp p ps)
  obtain c tp1 where c: "next_choice tp = (c, tp1)" by (cases "next_choice tp")
  define i where "i = (p # ps) ! (c mod length (p # ps))"
  have mem: "i \<in> set (p # ps)" unfolding i_def by (rule nth_mem) simp
  obtain rest tp2 where r: "pick_order tp1 (remove1 i (p # ps)) = (rest, tp2)"
    by (cases "pick_order tp1 (remove1 i (p # ps))")
  have "mset rest = mset (remove1 i (p # ps))"
    using "2.IH" [OF refl c [symmetric] i_def] r by simp
  then have "mset (i # rest) = mset (p # ps)"
    using mem by (metis mset.simps(2) mset_remove1 insert_DiffM set_mset_mset)
  moreover have "fst (pick_order tp (p # ps)) = i # rest"
    using c r by (simp add: i_def Let_def)
  ultimately show ?case by simp
qed

lemma exec_order_mset: "mset (fst (exec_order pol tp n)) = mset [0..<n]"
  by (cases pol) (simp_all add: exec_order_def pick_order_mset)

lemma exec_order_set: "set (fst (exec_order pol tp n)) = {0..<n}"
  using exec_order_mset [of pol tp n] by (metis set_mset_mset set_upt)

text \<open>Every order of the pending indices is the choice of some scheduler.\<close>

lemma pick_order_complete:
  "distinct ps \<Longrightarrow> mset ord = mset ps \<Longrightarrow> \<exists>tp. pick_order tp ps = (ord, [])"
proof (induction ord arbitrary: ps)
  case Nil
  then have "ps = []" by simp
  then have "pick_order [] ps = ([], [])" by simp
  then show ?case by blast
next
  case (Cons i rest)
  have mem: "i \<in> set ps" using Cons.prems(2) by (metis list.set_intros(1) set_mset_mset)
  then obtain p ps' where ps: "ps = p # ps'" by (cases ps) auto
  obtain k where k: "k < length ps" "ps ! k = i" using mem by (auto simp: in_set_conv_nth)
  have d: "distinct (remove1 i ps)" using Cons.prems(1) by simp
  have m: "mset rest = mset (remove1 i ps)"
    using Cons.prems(2) by (metis add_mset_remove_trivial mset.simps(2) mset_remove1)
  obtain tp where tp: "pick_order tp (remove1 i ps) = (rest, [])" using Cons.IH [OF d m] by blast
  have "pick_order (k # tp) (p # ps') = (i # rest, [])"
    using k tp unfolding ps by (simp add: Let_def del: remove1.simps)
  then show ?case unfolding ps by blast
qed

lemma apply_in_order_total:
  "apply_in_order (\<lambda>v. Inr (g v)) xs ord dst = Inr (fold (\<lambda>i acc. acc[i := g (xs ! i)]) ord dst)"
  by (induction ord arbitrary: dst) simp_all

lemma fold_update_length: "length (fold (\<lambda>i acc. acc[i := h i]) ord dst) = length dst"
  by (induction ord arbitrary: dst) simp_all

lemma fold_update_nth:
  "k < length dst \<Longrightarrow> fold (\<lambda>i acc. acc[i := h i]) ord dst ! k = (if k \<in> set ord then h k else dst ! k)"
proof (induction ord arbitrary: dst)
  case Nil
  then show ?case by simp
next
  case (Cons i ord)
  then show ?case by (cases "k = i") simp_all
qed

lemma fold_update_all:
  assumes "set ord = {0..<length dst}"
  shows "fold (\<lambda>i acc. acc[i := h i]) ord dst = map h [0..<length dst]"
  by (rule nth_equalityI) (simp_all add: fold_update_length fold_update_nth assms)

lemma std_transform_total:
  assumes "length dst = length xs"
  shows "std_transform pol (\<lambda>v. Inr (g v)) xs dst tp = Inr (map g xs, snd (exec_order pol tp (length xs)))"
proof -
  obtain ord tp1 where o: "exec_order pol tp (length xs) = (ord, tp1)"
    by (cases "exec_order pol tp (length xs)")
  have "set ord = {0..<length dst}"
    using exec_order_set [of pol tp "length xs"] o assms by simp
  then have "fold (\<lambda>i acc. acc[i := g (xs ! i)]) ord dst = map (\<lambda>i. g (xs ! i)) [0..<length dst]"
    by (rule fold_update_all)
  also have "\<dots> = map g xs"
    using assms by (intro nth_equalityI) simp_all
  finally show ?thesis
    using o assms by (simp add: std_transform_def apply_in_order_total)
qed

lemma trig_transform_map:
  "length dst = length src \<Longrightarrow>
   trig_transform pol P src dst tp = Inr (map (trig_fn P) src, snd (exec_order pol tp (length src)))"
  by (simp add: trig_transform_def std_transform_total)

text \<open>
  C1.  For every input buffer and every execution policy, the trigonometric transform
  writes into the output buffer (which has the length of the input), at each index \<open>i\<close>,
  the value \<open>sqrt (sin (input[i]) * cos (input[i]))\<close>, and the output keeps the length of
  the input.
\<close>

theorem trig_transform_elementwise:
  assumes "length dst = length src"
  shows "\<exists>out1 tp1. trig_transform pol P src dst tp = Inr (out1, tp1)
           \<and> length out1 = length src
           \<and> (\<forall>i<length src. out1 ! i = d_sqrt P (d_sin P (src ! i) * d_cos P (src ! i)))"
  using assms by (simp add: trig_transform_map trig_fn_def)

theorem trig_transform_elementwise_witness:
  "length [0, pi / 2 :: real] = length [0, pi / 2 :: real]
   \<and> (\<exists>out1 tp1. trig_transform Par example_platform [0, pi / 2] [0, pi / 2] [1] = Inr (out1, tp1)
         \<and> length out1 = 2 \<and> out1 ! 0 = 0 \<and> out1 ! 1 = 0)"
  using trig_transform_elementwise [of "[0, pi / 2 :: real]" "[0, pi / 2]" Par example_platform "[1]"]
  by (auto simp: example_platform_def)

text \<open>
  C3.  For every input buffer, the trigonometric transform under the sequential policy
  and under the parallel policy, on that same input and whatever the scheduler decides,
  yields the same output buffer, element for element.
\<close>

theorem trig_transform_seq_par_identical:
  assumes "length dst = length src"
  shows "\<exists>out1 tp1 tp2. trig_transform Seq P src dst tpa = Inr (out1, tp1)
           \<and> trig_transform Par P src dst tpb = Inr (out1, tp2)"
  using assms by (simp add: trig_transform_map)

theorem trig_transform_seq_par_identical_witness:
  "length [0, 1, 2 :: real] = length [0, 1, 2 :: real]
   \<and> (\<exists>out1 tp1 tp2. trig_transform Seq example_platform [0, 1, 2] [0, 1, 2] [] = Inr (out1, tp1)
         \<and> trig_transform Par example_platform [0, 1, 2] [0, 1, 2] [2, 0, 1] = Inr (out1, tp2))"
  using trig_transform_seq_par_identical [of "[0, 1, 2 :: real]" "[0, 1, 2]" example_platform "[]" "[2, 0, 1]"]
  by simp

subsection \<open>The timed trial runner\<close>

lemma set_insert_set: "set (set_insert x xs) = insert x (set xs)"
  by (induction xs) auto

lemma set_insert_sorted: "sorted xs \<Longrightarrow> sorted (set_insert x xs)"
  by (induction xs) (auto simp: set_insert_set)

lemma fold_set_insert_set: "set (fold set_insert xs acc) = set xs \<union> set acc"
  by (induction xs arbitrary: acc) (auto simp: set_insert_set)

lemma fold_set_insert_sorted: "sorted acc \<Longrightarrow> sorted (fold set_insert xs acc)"
  by (induction xs arbitrary: acc) (auto simp: set_insert_sorted)

lemma sorted_hd_Min: "sorted (x # xs) \<Longrightarrow> x = Min (set (x # xs))"
  by (metis List.finite_set Min_eqI list.set_intros(1) order_refl set_ConsD sorted_simps(2))

lemma sorted_last_Max: "sorted xs \<Longrightarrow> xs \<noteq> [] \<Longrightarrow> last xs = Max (set xs)"
proof (induction xs)
  case Nil
  then show ?case by simp
next
  case (Cons x xs)
  show ?case
  proof (cases "xs = []")
    case True
    then show ?thesis by simp
  next
    case False
    then have "last xs = Max (set xs)" using Cons by simp
    moreover have "x \<le> last xs" using Cons.prems False by auto
    ultimately show ?thesis using False by (simp add: max_def)
  qed
qed

lemma timed_calls_length: "timed_calls P func n e = Inr (xs, e') \<Longrightarrow> length xs = n"
  by (induction n arbitrary: e xs e') (auto split: sum.splits)

lemma loop_unfold:
  "RunAndMeasure_loop P func i tms results e =
     (if i < RUN_TIMES then
        (case timed_call P func e of
           Inl err \<Rightarrow> Inl err
         | Inr ((t, ret), e3) \<Rightarrow> RunAndMeasure_loop P func (Suc i) (set_insert t tms) (results[i := ret]) e3)
      else Inr (tms, results, e))"
  by (subst RunAndMeasure_loop.simps) (simp add: timed_call_def Let_def split: prod.splits sum.splits)

lemma loop_char:
  "i + n = RUN_TIMES \<Longrightarrow> length results = RUN_TIMES \<Longrightarrow>
   RunAndMeasure_loop P func i tms results e =
     (case timed_calls P func n e of
        Inl err \<Rightarrow> Inl err
      | Inr (xs, e') \<Rightarrow> Inr (fold set_insert (map fst xs) tms, take i results @ map snd xs, e'))"
proof (induction n arbitrary: i tms results e)
  case 0
  then show ?case by (subst loop_unfold) simp
next
  case (Suc n)
  have lt: "i < RUN_TIMES" using Suc.prems by simp
  show ?case
  proof (cases "timed_call P func e")
    case (Inl err)
    then show ?thesis using lt by (subst loop_unfold) simp
  next
    case (Inr y)
    obtain t ret e3 where y: "y = ((t, ret), e3)" by (metis prod.exhaust)
    have ih: "RunAndMeasure_loop P func (Suc i) (set_insert t tms) (results[i := ret]) e3 =
       (case timed_calls P func n e3 of
          Inl err \<Rightarrow> Inl err
        | Inr (xs, e') \<Rightarrow> Inr (fold set_insert (map fst xs) (set_insert t tms), take (Suc i) (results[i := ret]) @ map snd xs, e'))"
      using Suc.prems by (intro Suc.IH) simp_all
    have tk: "take (Suc i) (results[i := ret]) = take i results @ [ret]"
      using lt Suc.prems(2) by (simp add: take_Suc_conv_app_nth)
    show ?thesis
      using lt Inr y by (subst loop_unfold) (simp add: ih tk split: sum.splits prod.splits)
  qed
qed

lemma report_of_runs:
  assumes "runs \<noteq> []"
  shows "(case (fold set_insert (map fst runs) [], map snd runs) of
            (t # ts, r # rs) \<Rightarrow>
              Inr ([Text title, Text ('':'' @ [CHR 0x09] @ '' ''), Time t, Text ''ms (max was '',
                    Time (last (fold set_insert (map fst runs) [])), Text '') '', Value r, Text [CHR 0x0A]], e1)
          | _ \<Rightarrow> Inl Out_Of_Range) = Inr (report_line title runs, e1)"
proof -
  let ?tms = "fold set_insert (map fst runs) []"
  have s: "sorted ?tms" by (simp add: fold_set_insert_sorted)
  have st: "set ?tms = set (map fst runs)" by (simp add: fold_set_insert_set)
  then have ne: "?tms \<noteq> []" using assms by (metis list.map_disc_iff set_empty)
  then obtain t ts where tt: "?tms = t # ts" by (cases ?tms) auto
  have mn: "t = Min (set (map fst runs))" using sorted_hd_Min s tt st by metis
  have mx: "last ?tms = Max (set (map fst runs))" using sorted_last_Max [OF s ne] st by simp
  have mx': "last (t # ts) = Max (set (map fst runs))" using mx tt by simp
  have sn: "map snd runs = snd (hd runs) # map snd (tl runs)" using assms by (cases runs) auto
  show ?thesis
    by (simp only: tt sn list.case prod.case report_line_def mx' mn [symmetric])
qed

lemma RunAndMeasure_char:
  "RunAndMeasure P title func e =
     (case func e of
        Inl err \<Rightarrow> Inl err
      | Inr (first, e0) \<Rightarrow>
          (case timed_calls P func RUN_TIMES e0 of
             Inl err \<Rightarrow> Inl err
           | Inr (runs, e1) \<Rightarrow> Inr (report_line title runs, e1)))"
proof (cases "func e")
  case (Inl err)
  then show ?thesis by (simp add: RunAndMeasure_def)
next
  case (Inr y)
  obtain first e0 where y: "y = (first, e0)" by (cases y)
  show ?thesis
  proof (cases "timed_calls P func RUN_TIMES e0")
    case (Inl err)
    then show ?thesis
      using Inr y by (simp add: RunAndMeasure_def loop_char [where n = RUN_TIMES])
  next
    case r: (Inr z)
    obtain runs e1 where z: "z = (runs, e1)" by (cases z)
    have "length runs = RUN_TIMES" using r z timed_calls_length by metis
    then have ne: "runs \<noteq> []" by (auto simp: RUN_TIMES_def)
    show ?thesis
      using Inr y r z report_of_runs [OF ne, of title e1]
      by (simp add: RunAndMeasure_def loop_char [where n = RUN_TIMES])
  qed
qed

lemma RunAndMeasure_runs:
  assumes "RunAndMeasure P title func e = Inr (line, e1)"
  shows "\<exists>first e0 runs. func e = Inr (first, e0) \<and> timed_calls P func RUN_TIMES e0 = Inr (runs, e1)
           \<and> length runs = RUN_TIMES \<and> line = report_line title runs"
proof (cases "func e")
  case (Inl err)
  then show ?thesis using assms by (simp add: RunAndMeasure_char)
next
  case (Inr y)
  obtain first e0 where y: "y = (first, e0)" by (cases y)
  show ?thesis
  proof (cases "timed_calls P func RUN_TIMES e0")
    case (Inl err)
    then show ?thesis using assms Inr y by (simp add: RunAndMeasure_char)
  next
    case r: (Inr z)
    obtain runs e2 where z: "z = (runs, e2)" by (cases z)
    have "length runs = RUN_TIMES" using r z timed_calls_length by metis
    then show ?thesis using assms Inr y r z by (simp add: RunAndMeasure_char)
  qed
qed

lemma RUN_TIMES_Suc: "RUN_TIMES = Suc (Suc (Suc (Suc (Suc 0))))"
  by (simp add: RUN_TIMES_def)

lemma example_timed_calls:
  "timed_calls example_platform ticks_so_far RUN_TIMES (example_env\<lparr>ticks := 0\<rparr>) =
     Inr ([(1, 1), (5, 3), (9, 5), (13, 7), (17, 9)], example_env\<lparr>ticks := 10\<rparr>)"
  by (simp add: RUN_TIMES_Suc timed_call_def now_def example_platform_def example_env_def ticks_so_far_def)

lemma example_run:
  "RunAndMeasure example_platform ''t'' ticks_so_far example_env =
     Inr ([Text ''t'', Text ('':'' @ [CHR 0x09] @ '' ''), Time 1, Text ''ms (max was '', Time 17, Text '') '',
           Value 1, Text [CHR 0x0A]], example_env\<lparr>ticks := 10\<rparr>)"
proof -
  have e: "example_env\<lparr>ticks := 0\<rparr> = example_env" by (simp add: example_env_def)
  show ?thesis
    using example_timed_calls
    by (simp add: RunAndMeasure_char ticks_so_far_def [of example_env] e report_line_def)
qed

text \<open>
  C2 (as stated).  The printed result is not the last-computed result of the timed
  invocations: for a computation that returns the number of clock readings made so far,
  the timed invocations return 1, 3, 5, 7 and 9, and the line shows 1.
\<close>

theorem RunAndMeasure_prints_last_result_counterexample:
  "RunAndMeasure example_platform ''t'' ticks_so_far example_env =
     Inr ([Text ''t'', Text ('':'' @ [CHR 0x09] @ '' ''), Time 1, Text ''ms (max was '', Time 17, Text '') '',
           Value 1, Text [CHR 0x0A]], example_env\<lparr>ticks := 10\<rparr>)
   \<and> timed_calls example_platform ticks_so_far RUN_TIMES example_env =
     Inr ([(1, 1), (5, 3), (9, 5), (13, 7), (17, 9)], example_env\<lparr>ticks := 10\<rparr>)
   \<and> snd (last [(1 :: real, 1 :: nat), (5, 3), (9, 5), (13, 7), (17, 9)]) = 9
   \<and> Value 9 \<notin> set [Text ''t'', Text ('':'' @ [CHR 0x09] @ '' ''), Time (1 :: real), Text ''ms (max was '',
           Time 17, Text '') '', Value (1 :: nat), Text [CHR 0x0A]]"
proof -
  have e: "example_env\<lparr>ticks := 0\<rparr> = example_env" by (simp add: example_env_def)
  show ?thesis
    using example_run example_timed_calls by (simp add: e)
qed

text \<open>
  C2 (amended).  For every labelled computation passed to the timed trial runner, the run
  fails exactly when one of the invocations fails, and otherwise the line it prints
  holds the label, the minimum and the maximum of the elapsed times of the five timed
  invocations, and the result of the first timed invocation (\<^verbatim>\<open>results[0]\<close>).
\<close>

theorem RunAndMeasure_prints_min_max_first:
  "RunAndMeasure P title func e =
     (case func e of
        Inl err \<Rightarrow> Inl err
      | Inr (first, e0) \<Rightarrow>
          (case timed_calls P func RUN_TIMES e0 of
             Inl err \<Rightarrow> Inl err
           | Inr (runs, e1) \<Rightarrow>
               Inr ([Text title, Text ('':'' @ [CHR 0x09] @ '' ''), Time (Min (fst ` set runs)),
                     Text ''ms (max was '', Time (Max (fst ` set runs)), Text '') '',
                     Value (snd (hd runs)), Text [CHR 0x0A]], e1)))"
  by (simp add: RunAndMeasure_char report_line_def split: sum.splits prod.splits)

theorem RunAndMeasure_prints_min_max_first_witness:
  "RunAndMeasure example_platform ''t'' ticks_so_far example_env =
     Inr ([Text ''t'', Text ('':'' @ [CHR 0x09] @ '' ''), Time 1, Text ''ms (max was '', Time 17, Text '') '',
           Value 1, Text [CHR 0x0A]], example_env\<lparr>ticks := 10\<rparr>)"
proof -
  have e: "example_env\<lparr>ticks := 0\<rparr> = example_env" by (simp add: example_env_def)
  show ?thesis
    using example_timed_calls
    by (simp add: RunAndMeasure_prints_min_max_first ticks_so_far_def [of example_env] e)
qed

subsection \<open>Counting the invocations\<close>

lemma now_calls: "now P e = (t, e1) \<Longrightarrow> calls e1 = calls e"
  by (auto simp: now_def)

lemma timed_call_counting:
  assumes "timed_call P (counting func) e = Inr (x, e1)"
  shows "calls e1 = Suc (calls e)"
proof -
  obtain t ea where n1: "now P e = (t, ea)" by (cases "now P e")
  have c1: "calls ea = calls e" using n1 by (rule now_calls)
  obtain r eb where f: "counting func ea = Inr (r, eb)"
    using assms n1 by (auto simp: timed_call_def split: sum.splits)
  have c2: "calls eb = Suc (calls ea)"
    using f by (auto simp: counting_def split: sum.splits)
  obtain t2 ec where n2: "now P eb = (t2, ec)" by (cases "now P eb")
  have "e1 = ec" using assms n1 f n2 by (simp add: timed_call_def)
  then show ?thesis using now_calls [OF n2] c1 c2 by simp
qed

lemma timed_calls_counting:
  "timed_calls P (counting func) n e = Inr (xs, e1) \<Longrightarrow> calls e1 = calls e + n"
proof (induction n arbitrary: e xs e1)
  case 0
  then show ?case by simp
next
  case (Suc n)
  from Suc.prems obtain x ea ys where
    a: "timed_call P (counting func) e = Inr (x, ea)" and
    b: "timed_calls P (counting func) n ea = Inr (ys, e1)"
    by (auto split: sum.splits)
  show ?case using timed_call_counting [OF a] Suc.IH [OF b] by simp
qed

lemma report_line_items:
  assumes "runs \<noteq> []"
  shows "(Time t \<in> set (report_line title runs) \<longrightarrow> t \<in> fst ` set runs)
       \<and> (Value r \<in> set (report_line title runs) \<longrightarrow> r \<in> snd ` set runs)"
proof -
  have "Min (fst ` set runs) \<in> fst ` set runs" using assms by (intro Min_in) simp_all
  moreover have "Max (fst ` set runs) \<in> fst ` set runs" using assms by (intro Max_in) simp_all
  moreover have "snd (hd runs) \<in> snd ` set runs" using assms by simp
  ultimately show ?thesis by (auto simp: report_line_def)
qed

text \<open>
  C7.  The timed trial runner invokes the supplied computation exactly six times: one
  warm-up invocation, then \<open>RUN_TIMES = 5\<close> timed invocations; every elapsed time and
  every result on the printed line is that of one of the five timed invocations, so the
  result and the duration of the warm-up are not printed.
\<close>

theorem RunAndMeasure_six_invocations:
  assumes "RunAndMeasure P title (counting func) e = Inr (line, e1)"
  shows "calls e1 = calls e + 6
       \<and> (\<exists>first e0 runs. counting func e = Inr (first, e0) \<and> calls e0 = calls e + 1
             \<and> timed_calls P (counting func) RUN_TIMES e0 = Inr (runs, e1) \<and> length runs = 5
             \<and> (\<forall>t. Time t \<in> set line \<longrightarrow> t \<in> fst ` set runs)
             \<and> (\<forall>r. Value r \<in> set line \<longrightarrow> r \<in> snd ` set runs))"
proof -
  from RunAndMeasure_runs [OF assms] obtain first e0 runs where
    f: "counting func e = Inr (first, e0)" and
    t: "timed_calls P (counting func) RUN_TIMES e0 = Inr (runs, e1)" and
    l: "length runs = RUN_TIMES" and
    r: "line = report_line title runs"
    by blast
  have c0: "calls e0 = calls e + 1"
    using f by (auto simp: counting_def split: sum.splits)
  have c1: "calls e1 = calls e0 + RUN_TIMES" using t by (rule timed_calls_counting)
  have ne: "runs \<noteq> []" using l by (auto simp: RUN_TIMES_def)
  have "calls e1 = calls e + 6" using c0 c1 by (simp add: RUN_TIMES_def)
  moreover have "length runs = 5" using l by (simp add: RUN_TIMES_def)
  ultimately show ?thesis
    using f t c0 report_line_items [OF ne, of _ title] unfolding r by blast
qed

lemma example_counting_timed_calls:
  "timed_calls example_platform (counting ticks_so_far) RUN_TIMES (example_counting_env\<lparr>calls := 1\<rparr>) =
     Inr ([(1, 1), (5, 3), (9, 5), (13, 7), (17, 9)], example_counting_env\<lparr>ticks := 10, calls := 6\<rparr>)"
  by (simp add: RUN_TIMES_Suc timed_call_def now_def example_platform_def example_counting_env_def
      ticks_so_far_def counting_def)

lemma example_counting_run:
  "RunAndMeasure example_platform ''t'' (counting ticks_so_far) example_counting_env =
     Inr ([Text ''t'', Text ('':'' @ [CHR 0x09] @ '' ''), Time 1, Text ''ms (max was '', Time 17, Text '') '',
           Value 1, Text [CHR 0x0A]], example_counting_env\<lparr>ticks := 10, calls := 6\<rparr>)"
proof -
  have "counting ticks_so_far example_counting_env = Inr (0, example_counting_env\<lparr>calls := 1\<rparr>)"
    by (simp add: counting_def ticks_so_far_def example_counting_env_def)
  then show ?thesis
    using example_counting_timed_calls by (simp add: RunAndMeasure_char report_line_def)
qed

theorem RunAndMeasure_six_invocations_witness:
  "RunAndMeasure example_platform ''t'' (counting ticks_so_far) example_counting_env =
     Inr ([Text ''t'', Text ('':'' @ [CHR 0x09] @ '' ''), Time 1, Text ''ms (max was '', Time 17, Text '') '',
           Value 1, Text [CHR 0x0A]], example_counting_env\<lparr>ticks := 10, calls := 6\<rparr>)
   \<and> calls (example_counting_env\<lparr>ticks := 10, calls := 6\<rparr>) = calls example_counting_env + 6"
  using RunAndMeasure_six_invocations [OF example_counting_run] example_counting_run by simp

subsection \<open>Sorting points\<close>

lemma sort_insert_mset: "mset (sort_insert cmp a bs) = add_mset a (mset bs)"
  by (induction bs) simp_all

lemma std_sort_mset: "mset (std_sort pol cmp ps) = mset ps"
  by (induction ps) (simp_all add: sort_insert_mset)

lemma sort_insert_sorted:
  fixes a :: "('d::linorder) vec4"
  shows "sorted (map vec4_x bs) \<Longrightarrow> sorted (map vec4_x (sort_insert less_x a bs))"
proof (induction bs)
  case Nil
  then show ?case by simp
next
  case (Cons b bs)
  have s: "set (sort_insert less_x a bs) = insert a (set bs)"
    by (metis sort_insert_mset set_mset_mset set_mset_add_mset_insert)
  show ?case
  proof (cases "less_x a b")
    case True
    then have "vec4_x a \<le> vec4_x b" by (simp add: less_x_def)
    then show ?thesis using True Cons.prems by auto
  next
    case False
    then have "vec4_x b \<le> vec4_x a" by (simp add: less_x_def)
    then show ?thesis using False Cons by (auto simp: s)
  qed
qed

lemma std_sort_sorted:
  fixes ps :: "('d::linorder) vec4 list"
  shows "sorted (map vec4_x (std_sort pol less_x ps))"
  by (induction ps) (simp_all add: sort_insert_sorted)

lemma sort_loop:
  "state_loop (Suc k) (sort_body pol) ps = state_loop k (sort_body pol) (std_sort pol less_x ps)"
  by (simp add: sort_body_def)

lemma sort_loop_result:
  fixes ps :: "('d::linorder) vec4 list"
  shows "\<exists>qs. state_loop k (sort_body pol) ps = Inr qs \<and> mset qs = mset ps
           \<and> (sorted (map vec4_x ps) \<longrightarrow> sorted (map vec4_x qs))"
proof (induction k arbitrary: ps)
  case 0
  then show ?case by simp
next
  case (Suc k)
  obtain qs where q: "state_loop k (sort_body pol) (std_sort pol less_x ps) = Inr qs"
    "mset qs = mset (std_sort pol less_x ps)"
    "sorted (map vec4_x (std_sort pol less_x ps)) \<longrightarrow> sorted (map vec4_x qs)"
    using Suc.IH by blast
  have "sorted (map vec4_x qs)" using q(3) std_sort_sorted by blast
  then show ?case unfolding sort_loop using q by (simp add: std_sort_mset)
qed

text \<open>
  C5.  After the vector sort has run (once or more often) on any buffer of 4-component
  points, every adjacent pair of the output is in order of the first coordinate, and the
  output is a permutation of the input.
\<close>

theorem sort_points_ordered_permutation:
  fixes points :: "('d::linorder) vec4 list"
  assumes "0 < iterations"
  shows "\<exists>sorted_points. state_loop iterations (sort_body pol) points = Inr sorted_points
           \<and> (\<forall>i. Suc i < length sorted_points
                  \<longrightarrow> vec4_x (sorted_points ! i) \<le> vec4_x (sorted_points ! Suc i))
           \<and> mset sorted_points = mset points"
proof -
  obtain k where k: "iterations = Suc k" using assms by (cases iterations) auto
  obtain qs where q: "state_loop k (sort_body pol) (std_sort pol less_x points) = Inr qs"
    "mset qs = mset (std_sort pol less_x points)"
    "sorted (map vec4_x (std_sort pol less_x points)) \<longrightarrow> sorted (map vec4_x qs)"
    using sort_loop_result by blast
  have "sorted (map vec4_x qs)" using q(3) std_sort_sorted by blast
  then have "\<forall>i. Suc i < length qs \<longrightarrow> vec4_x (qs ! i) \<le> vec4_x (qs ! Suc i)"
    by (auto simp: sorted_iff_nth_Suc)
  then show ?thesis unfolding k sort_loop using q by (simp add: std_sort_mset)
qed

theorem sort_points_ordered_permutation_witness:
  "(0 :: nat) < 1
   \<and> state_loop 1 (sort_body Par) [Vec4 3 0 0 1, Vec4 (- 1) 5 0 1, Vec4 2 0 7 (1 :: int)]
       = Inr [Vec4 (- 1) 5 0 1, Vec4 2 0 7 1, Vec4 3 0 0 1]"
  using sort_points_ordered_permutation [of 1 Par "[Vec4 3 0 0 1, Vec4 (- 1) 5 0 1, Vec4 2 0 7 (1 :: int)]"]
  by (simp add: sort_body_def less_x_def)

subsection \<open>Index-driven pricing\<close>

lemma size_t_of_int_nat: "k < 2 ^ 64 \<Longrightarrow> size_t_of_int (int k) = k"
proof -
  assume "k < 2 ^ 64"
  then have "int k < 2 ^ 64" by (metis of_nat_less_iff of_nat_numeral of_nat_power)
  then show ?thesis by (simp add: size_t_of_int_def)
qed

lemma int_of_int64_nat: "k < 2 ^ 31 \<Longrightarrow> int_of_int64 (int k) = int k"
proof -
  assume "k < 2 ^ 31"
  then have "int k < 2 ^ 31" by (metis of_nat_less_iff of_nat_numeral of_nat_power)
  then show ?thesis unfolding int_of_int64_def by (intro signed_take_bit_int_eq_self) simp_all
qed

lemma populate_ok:
  assumes "pricing_sizes n s" "k < n" "n \<le> 2 ^ 63"
  shows "\<exists>s1. populate P (int k) s = Inr s1 \<and> pricing_sizes n s1"
proof -
  have k64: "k < 2 ^ 64" using assms(2,3) by (rule_tac less_le_trans [of k "2 ^ 63"]) simp_all
  obtain p sa where a: "GenRandomFloat P (d_lit P 0.5) (d_lit P 100) s = (p, sa)"
    by (cases "GenRandomFloat P (d_lit P 0.5) (d_lit P 100) s")
  have sa: "pricing_sizes n sa"
    using a assms(1) by (auto simp: GenRandomFloat_def pricing_sizes_def Let_def split: prod.splits)
  obtain q sb where b: "GenRandomInt P 1 100 (sa\<lparr>prices := (prices sa)[k := p]\<rparr>) = (q, sb)"
    by (cases "GenRandomInt P 1 100 (sa\<lparr>prices := (prices sa)[k := p]\<rparr>)")
  have sb: "pricing_sizes n sb"
    using b sa by (auto simp: GenRandomInt_def pricing_sizes_def Let_def split: prod.splits)
  obtain d sc where c: "GenRandomFloat P (d_lit P 0) (d_lit P 0.5) (sb\<lparr>quantities := (quantities sb)[k := unsigned_of_int q]\<rparr>) = (d, sc)"
    by (cases "GenRandomFloat P (d_lit P 0) (d_lit P 0.5) (sb\<lparr>quantities := (quantities sb)[k := unsigned_of_int q]\<rparr>)")
  have sc: "pricing_sizes n sc"
    using c sb by (auto simp: GenRandomFloat_def pricing_sizes_def Let_def split: prod.splits)
  have "populate P (int k) s = Inr (sc\<lparr>discounts := (discounts sc)[k := d]\<rparr>)"
    using a b c sa sb sc assms(2)
    by (simp add: populate_def vec_set_def size_t_of_int_nat [OF k64] pricing_sizes_def)
  then show ?thesis using sc by (simp add: pricing_sizes_def)
qed

lemma for_each_populate_ok:
  assumes "n \<le> 2 ^ 63"
  shows "pricing_sizes n s \<Longrightarrow> set ord \<subseteq> {0..<n} \<Longrightarrow>
         \<exists>s1. for_each_in_order (populate P) (counting_range n) ord s = Inr s1 \<and> pricing_sizes n s1"
proof (induction ord arbitrary: s)
  case Nil
  then show ?case by simp
next
  case (Cons k ord)
  have k: "k < n" using Cons.prems(2) by simp
  obtain s1 where s1: "populate P (int k) s = Inr s1" "pricing_sizes n s1"
    using populate_ok [OF Cons.prems(1) k assms] by blast
  have "set ord \<subseteq> {0..<n}" using Cons.prems(2) by simp
  from Cons.IH [OF s1(2) this] show ?case
    using s1(1) k by (simp add: counting_range_def)
qed

lemma std_for_each_populate_ok:
  assumes "n \<le> 2 ^ 63" "pricing_sizes n s"
  shows "\<exists>s1. std_for_each pol (populate P) (counting_range n) s = Inr s1 \<and> pricing_sizes n s1"
proof -
  obtain ord tp1 where o: "exec_order pol (tape s) n = (ord, tp1)" by (cases "exec_order pol (tape s) n")
  have sub: "set ord \<subseteq> {0..<n}" using exec_order_set [of pol "tape s" n] o by simp
  have sz: "pricing_sizes n (s\<lparr>tape := tp1\<rparr>)" using assms(2) by (simp add: pricing_sizes_def)
  show ?thesis
    using for_each_populate_ok [OF assms(1) sz sub] o
    by (simp add: std_for_each_def counting_range_def)
qed

lemma apply_in_order_ok:
  assumes "\<And>i. i < length xs \<Longrightarrow> f (xs ! i) = Inr (h i)"
  shows "set ord \<subseteq> {0..<length xs} \<Longrightarrow>
         apply_in_order f xs ord dst = Inr (fold (\<lambda>i acc. acc[i := h i]) ord dst)"
  by (induction ord arbitrary: dst) (simp_all add: assms)

lemma std_transform_ok:
  assumes "\<And>i. i < length xs \<Longrightarrow> f (xs ! i) = Inr (h i)" "length dst = length xs"
  shows "std_transform pol f xs dst tp = Inr (map h [0..<length xs], snd (exec_order pol tp (length xs)))"
proof -
  obtain ord tp1 where o: "exec_order pol tp (length xs) = (ord, tp1)"
    by (cases "exec_order pol tp (length xs)")
  have st: "set ord = {0..<length dst}"
    using exec_order_set [of pol tp "length xs"] o assms(2) by simp
  then have sub: "set ord \<subseteq> {0..<length xs}" using assms(2) by simp
  have "fold (\<lambda>i acc. acc[i := h i]) ord dst = map h [0..<length dst]"
    using st by (rule fold_update_all)
  then show ?thesis
    using o assms(2) apply_in_order_ok [of xs f h ord dst, OF assms(1) sub]
    by (simp add: std_transform_def)
qed

lemma profit_fn_ok:
  assumes "pricing_sizes n s" "k < n" "n \<le> 2 ^ 31"
  shows "profit_fn P s (int k) = Inr ((prices s ! k * (1 - discounts s ! k)) * d_of_uint P (quantities s ! k))"
proof -
  have k31: "k < 2 ^ 31" using assms(2,3) by simp
  then have k64: "k < 2 ^ 64" by (rule_tac less_trans [of k "2 ^ 31"]) simp_all
  show ?thesis
    using assms(1,2)
    by (simp add: profit_fn_def int_of_int64_nat [OF k31] vec_get_def size_t_of_int_nat [OF k64] pricing_sizes_def)
qed

lemma pricing_body_result:
  assumes "VecSize \<le> 2 ^ 31" and sz: "pricing_sizes VecSize s"
  shows "\<exists>s1. pricing_body pol P VecSize s = Inr s1
           \<and> pricing_sizes VecSize s1
           \<and> (\<forall>i<VecSize. profit s1 ! i
                  = (prices s1 ! i * (1 - discounts s1 ! i)) * d_of_uint P (quantities s1 ! i))"
proof -
  have big: "VecSize \<le> 2 ^ 63" using assms(1) by (rule_tac order_trans [of _ "2 ^ 31"]) simp_all
  obtain sa where sa: "std_for_each pol (populate P) (counting_range VecSize) s = Inr sa"
    "pricing_sizes VecSize sa"
    using std_for_each_populate_ok [OF big sz] by blast
  let ?h = "\<lambda>i. (prices sa ! i * (1 - discounts sa ! i)) * d_of_uint P (quantities sa ! i)"
  have len: "length (counting_range VecSize) = VecSize" by (simp add: counting_range_def)
  have f: "\<And>i. i < length (counting_range VecSize) \<Longrightarrow> profit_fn P sa (counting_range VecSize ! i) = Inr (?h i)"
    using profit_fn_ok [OF sa(2) _ assms(1)] by (simp add: counting_range_def)
  have pl: "length (profit sa) = length (counting_range VecSize)"
    using sa(2) len by (simp add: pricing_sizes_def)
  have tr: "std_transform pol (profit_fn P sa) (counting_range VecSize) (profit sa) (tape sa)
      = Inr (map ?h [0..<VecSize], snd (exec_order pol (tape sa) VecSize))"
    using std_transform_ok [of "counting_range VecSize" "profit_fn P sa" ?h "profit sa" pol "tape sa", OF f pl]
    by (simp add: len)
  show ?thesis
    using sa tr by (simp add: pricing_body_def pricing_sizes_def)
qed











subsection \<open>Success of a trial\<close>

lemma timed_call_success:
  assumes f: "\<And>s. I s \<Longrightarrow> \<exists>r s1. func s = Inr (r, s1) \<and> I s1"
    and n: "\<And>s. I s \<Longrightarrow> I (snd (now P s))"
    and i: "I e"
  shows "\<exists>x e1. timed_call P func e = Inr (x, e1) \<and> I e1"
proof -
  obtain t ea where a: "now P e = (t, ea)" by (cases "now P e")
  have ia: "I ea" using n [OF i] a by simp
  obtain r eb where b: "func ea = Inr (r, eb)" "I eb" using f [OF ia] by blast
  obtain t2 ec where c: "now P eb = (t2, ec)" by (cases "now P eb")
  have "I ec" using n [OF b(2)] c by simp
  then show ?thesis using a b c by (simp add: timed_call_def)
qed

lemma timed_calls_success:
  assumes f: "\<And>s. I s \<Longrightarrow> \<exists>r s1. func s = Inr (r, s1) \<and> I s1"
    and n: "\<And>s. I s \<Longrightarrow> I (snd (now P s))"
  shows "I e \<Longrightarrow> \<exists>xs e1. timed_calls P func k e = Inr (xs, e1) \<and> I e1"
proof (induction k arbitrary: e)
  case 0
  then show ?case by simp
next
  case (Suc k)
  obtain x ea where a: "timed_call P func e = Inr (x, ea)" "I ea"
    using timed_call_success [of I func P e, OF f n Suc.prems] by blast
  obtain xs eb where b: "timed_calls P func k ea = Inr (xs, eb)" "I eb"
    using Suc.IH [OF a(2)] by blast
  show ?case using a b by simp
qed

lemma RunAndMeasure_success:
  assumes f: "\<And>s. I s \<Longrightarrow> \<exists>r s1. func s = Inr (r, s1) \<and> I s1"
    and n: "\<And>s. I s \<Longrightarrow> I (snd (now P s))"
    and i: "I e"
  shows "\<exists>line e1. RunAndMeasure P title func e = Inr (line, e1) \<and> I e1"
proof -
  obtain r ea where a: "func e = Inr (r, ea)" "I ea" using f [OF i] by blast
  obtain xs eb where b: "timed_calls P func RUN_TIMES ea = Inr (xs, eb)" "I eb"
    using timed_calls_success [of I func P ea RUN_TIMES, OF f n a(2)] by blast
  show ?thesis using a b by (simp add: RunAndMeasure_char)
qed

subsection \<open>The closures leave their inputs alone\<close>

lemma trig_lambda_frame: "trig_lambda pol P s = Inr (r, s1) \<Longrightarrow> vec s1 = vec s"
  by (auto simp: trig_lambda_def split: sum.splits list.splits)

lemma dot_lambda_frame: "dot_lambda pol s = Inr (r, s1) \<Longrightarrow> v1 s1 = v1 s \<and> v2 s1 = v2 s"
  by (auto simp: dot_lambda_def split: sum.splits)

lemma now_vec: "now P s = (t, s1) \<Longrightarrow> vec s1 = vec s \<and> seen_vec s1 = seen_vec s"
  by (auto simp: now_def)

lemma now_v1_v2: "now P s = (t, s1) \<Longrightarrow> v1 s1 = v1 s \<and> v2 s1 = v2 s \<and> seen_v1_v2 s1 = seen_v1_v2 s"
  by (auto simp: now_def)

lemma observing_vec_step:
  assumes fr: "\<And>s r s1. func s = Inr (r, s1) \<Longrightarrow> vec s1 = vec s"
    and "observing_vec func s = Inr (r, s1)"
  shows "vec s1 = vec s \<and> seen_vec s1 = seen_vec s @ [vec s]"
  using assms(2) fr by (auto simp: observing_vec_def split: sum.splits)

lemma timed_calls_observing_vec:
  assumes fr: "\<And>s r s1. func s = Inr (r, s1) \<Longrightarrow> vec s1 = vec s"
  shows "timed_calls P (observing_vec func) k s = Inr (xs, s1) \<Longrightarrow>
         vec s1 = vec s \<and> seen_vec s1 = seen_vec s @ replicate k (vec s)"
proof (induction k arbitrary: s xs)
  case 0
  then show ?case by simp
next
  case (Suc k)
  from Suc.prems obtain x sa ys where
    a: "timed_call P (observing_vec func) s = Inr (x, sa)" and
    b: "timed_calls P (observing_vec func) k sa = Inr (ys, s1)"
    by (auto split: sum.splits)
  obtain t sb where n1: "now P s = (t, sb)" by (cases "now P s")
  obtain r sc where o: "observing_vec func sb = Inr (r, sc)"
    using a n1 by (auto simp: timed_call_def split: sum.splits)
  obtain t2 sd where n2: "now P sc = (t2, sd)" by (cases "now P sc")
  have sa: "sa = sd" using a n1 o n2 by (simp add: timed_call_def)
  have "vec sa = vec s \<and> seen_vec sa = seen_vec s @ [vec s]"
    using now_vec [OF n1] observing_vec_step [OF fr o] now_vec [OF n2] sa by simp
  then show ?case using Suc.IH [OF b] by (simp add: replicate_append_same)
qed

lemma observing_v1_v2_step:
  assumes fr: "\<And>s r s1. func s = Inr (r, s1) \<Longrightarrow> v1 s1 = v1 s \<and> v2 s1 = v2 s"
    and "observing_v1_v2 func s = Inr (r, s1)"
  shows "v1 s1 = v1 s \<and> v2 s1 = v2 s \<and> seen_v1_v2 s1 = seen_v1_v2 s @ [(v1 s, v2 s)]"
  using assms(2) fr by (auto simp: observing_v1_v2_def split: sum.splits)

lemma timed_calls_observing_v1_v2:
  assumes fr: "\<And>s r s1. func s = Inr (r, s1) \<Longrightarrow> v1 s1 = v1 s \<and> v2 s1 = v2 s"
  shows "timed_calls P (observing_v1_v2 func) k s = Inr (xs, s1) \<Longrightarrow>
         v1 s1 = v1 s \<and> v2 s1 = v2 s \<and> seen_v1_v2 s1 = seen_v1_v2 s @ replicate k (v1 s, v2 s)"
proof (induction k arbitrary: s xs)
  case 0
  then show ?case by simp
next
  case (Suc k)
  from Suc.prems obtain x sa ys where
    a: "timed_call P (observing_v1_v2 func) s = Inr (x, sa)" and
    b: "timed_calls P (observing_v1_v2 func) k sa = Inr (ys, s1)"
    by (auto split: sum.splits)
  obtain t sb where n1: "now P s = (t, sb)" by (cases "now P s")
  obtain r sc where o: "observing_v1_v2 func sb = Inr (r, sc)"
    using a n1 by (auto simp: timed_call_def split: sum.splits)
  obtain t2 sd where n2: "now P sc = (t2, sd)" by (cases "now P sc")
  have sa: "sa = sd" using a n1 o n2 by (simp add: timed_call_def)
  have "v1 sa = v1 s \<and> v2 sa = v2 s \<and> seen_v1_v2 sa = seen_v1_v2 s @ [(v1 s, v2 s)]"
    using now_v1_v2 [OF n1] observing_v1_v2_step [OF fr o] now_v1_v2 [OF n2] sa by simp
  then show ?case using Suc.IH [OF b] by (simp add: replicate_append_same)
qed

lemma RunAndMeasure_observing_vec:
  assumes fr: "\<And>s r s1. func s = Inr (r, s1) \<Longrightarrow> vec s1 = vec s"
    and run: "RunAndMeasure P title (observing_vec func) s = Inr (line, s1)"
  shows "vec s1 = vec s \<and> seen_vec s1 = seen_vec s @ replicate 6 (vec s)"
proof -
  from RunAndMeasure_runs [OF run] obtain first s0 runs where
    a: "observing_vec func s = Inr (first, s0)" and
    b: "timed_calls P (observing_vec func) RUN_TIMES s0 = Inr (runs, s1)"
    by blast
  have "replicate 6 (vec s) = [vec s] @ replicate RUN_TIMES (vec s)"
    by (simp add: RUN_TIMES_def numeral_Bit0 numeral_Bit1 flip: replicate_add)
  then show ?thesis
    using observing_vec_step [OF fr a] timed_calls_observing_vec [OF fr b] by simp
qed

lemma RunAndMeasure_observing_v1_v2:
  assumes fr: "\<And>s r s1. func s = Inr (r, s1) \<Longrightarrow> v1 s1 = v1 s \<and> v2 s1 = v2 s"
    and run: "RunAndMeasure P title (observing_v1_v2 func) s = Inr (line, s1)"
  shows "v1 s1 = v1 s \<and> v2 s1 = v2 s \<and> seen_v1_v2 s1 = seen_v1_v2 s @ replicate 6 (v1 s, v2 s)"
proof -
  from RunAndMeasure_runs [OF run] obtain first s0 runs where
    a: "observing_v1_v2 func s = Inr (first, s0)" and
    b: "timed_calls P (observing_v1_v2 func) RUN_TIMES s0 = Inr (runs, s1)"
    by blast
  have "replicate 6 (v1 s, v2 s) = [(v1 s, v2 s)] @ replicate RUN_TIMES (v1 s, v2 s)"
    by (simp add: RUN_TIMES_def numeral_Bit0 numeral_Bit1 flip: replicate_add)
  then show ?thesis
    using observing_v1_v2_step [OF fr a] timed_calls_observing_v1_v2 [OF fr b] by simp
qed

lemma trig_lambda_success:
  assumes "length (out s) = length (vec s)" "vec s \<noteq> []"
  shows "\<exists>r s1. trig_lambda pol P s = Inr (r, s1) \<and> length (out s1) = length (vec s1) \<and> vec s1 \<noteq> []"
proof -
  obtain v vs where v: "vec s = v # vs" using assms(2) by (cases "vec s") auto
  show ?thesis
    using assms by (simp add: trig_lambda_def trig_transform_map v)
qed

lemma dot_lambda_success:
  assumes "length (v1 s) \<le> length (v2 s)"
  shows "\<exists>r s1. dot_lambda pol s = Inr (r, s1) \<and> v1 s1 = v1 s \<and> v2 s1 = v2 s"
proof -
  have "\<exists>r tp1. std_transform_reduce pol (v1 s) (v2 s) 0 (+) (*) (tape s) = Inr (r, tp1)"
    using assms
    by (cases pol) (auto simp: std_transform_reduce_def Let_def split: prod.splits list.splits)
  then show ?thesis by (auto simp: dot_lambda_def)
qed

text \<open>
  C10.  The closures do not modify their input buffers: after the trigonometric closure
  \<open>vec\<close> is what it was, after the dot-product closure \<open>v1\<close> and \<open>v2\<close> are what they
  were; and in one trial of the runner each of the six invocations starts from the same
  input data, which is still in place when the trial ends.
\<close>

theorem closures_leave_inputs_unchanged:
  "(trig_lambda pol P s = Inr (r, s1) \<longrightarrow> vec s1 = vec s)
   \<and> (dot_lambda pol d = Inr (r2, d1) \<longrightarrow> v1 d1 = v1 d \<and> v2 d1 = v2 d)
   \<and> (RunAndMeasure P title (observing_vec (trig_lambda pol P)) os = Inr (line, os1)
        \<longrightarrow> vec os1 = vec os \<and> seen_vec os1 = seen_vec os @ replicate 6 (vec os))
   \<and> (RunAndMeasure P title (observing_v1_v2 (dot_lambda pol)) od = Inr (line2, od1)
        \<longrightarrow> v1 od1 = v1 od \<and> v2 od1 = v2 od
            \<and> seen_v1_v2 od1 = seen_v1_v2 od @ replicate 6 (v1 od, v2 od))"
proof -
  have a: "trig_lambda pol P s = Inr (r, s1) \<longrightarrow> vec s1 = vec s"
    using trig_lambda_frame by blast
  have b: "dot_lambda pol d = Inr (r2, d1) \<longrightarrow> v1 d1 = v1 d \<and> v2 d1 = v2 d"
    using dot_lambda_frame by blast
  have c: "RunAndMeasure P title (observing_vec (trig_lambda pol P)) os = Inr (line, os1)
        \<longrightarrow> vec os1 = vec os \<and> seen_vec os1 = seen_vec os @ replicate 6 (vec os)"
  proof
    assume run: "RunAndMeasure P title (observing_vec (trig_lambda pol P)) os = Inr (line, os1)"
    show "vec os1 = vec os \<and> seen_vec os1 = seen_vec os @ replicate 6 (vec os)"
      by (rule RunAndMeasure_observing_vec [OF _ run]) (rule trig_lambda_frame)
  qed
  have d: "RunAndMeasure P title (observing_v1_v2 (dot_lambda pol)) od = Inr (line2, od1)
        \<longrightarrow> v1 od1 = v1 od \<and> v2 od1 = v2 od
            \<and> seen_v1_v2 od1 = seen_v1_v2 od @ replicate 6 (v1 od, v2 od)"
  proof
    assume run: "RunAndMeasure P title (observing_v1_v2 (dot_lambda pol)) od = Inr (line2, od1)"
    show "v1 od1 = v1 od \<and> v2 od1 = v2 od \<and> seen_v1_v2 od1 = seen_v1_v2 od @ replicate 6 (v1 od, v2 od)"
      by (rule RunAndMeasure_observing_v1_v2 [OF _ run]) (rule dot_lambda_frame)
  qed
  show ?thesis using a b c d by blast
qed

lemma observing_trig_success:
  assumes "length (out s) = length (vec s) \<and> vec s \<noteq> []"
  shows "\<exists>r s1. observing_vec (trig_lambda pol P) s = Inr (r, s1)
           \<and> (length (out s1) = length (vec s1) \<and> vec s1 \<noteq> [])"
proof -
  obtain r s1 where "trig_lambda pol P s = Inr (r, s1)" "length (out s1) = length (vec s1)" "vec s1 \<noteq> []"
    using trig_lambda_success [of s pol P] assms by blast
  then show ?thesis by (simp add: observing_vec_def)
qed

lemma observing_dot_success:
  assumes "length (v1 s) \<le> length (v2 s)"
  shows "\<exists>r s1. observing_v1_v2 (dot_lambda pol) s = Inr (r, s1) \<and> length (v1 s1) \<le> length (v2 s1)"
proof -
  obtain r s1 where "dot_lambda pol s = Inr (r, s1)" "v1 s1 = v1 s" "v2 s1 = v2 s"
    using dot_lambda_success [OF assms] by blast
  then show ?thesis using assms by (simp add: observing_v1_v2_def)
qed

theorem closures_leave_inputs_unchanged_witness:
  "\<exists>r s1 r2 d1 line os1 line2 od1.
     trig_lambda Par example_platform example_observed_trig_world = Inr (r, s1)
   \<and> vec s1 = [0, pi / 2]
   \<and> dot_lambda Par example_observed_dot_world = Inr (r2, d1)
   \<and> v1 d1 = [1, 2] \<and> v2 d1 = [3, 4]
   \<and> RunAndMeasure example_platform ''pstl::execution::par''
        (observing_vec (trig_lambda Par example_platform)) example_observed_trig_world = Inr (line, os1)
   \<and> vec os1 = [0, pi / 2] \<and> seen_vec os1 = replicate 6 [0, pi / 2]
   \<and> RunAndMeasure example_platform ''pstl::execution::par''
        (observing_v1_v2 (dot_lambda Par)) example_observed_dot_world = Inr (line2, od1)
   \<and> v1 od1 = [1, 2] \<and> v2 od1 = [3, 4] \<and> seen_v1_v2 od1 = replicate 6 ([1, 2], [3, 4])"
proof -
  let ?W = "example_observed_trig_world"
  let ?D = "example_observed_dot_world"
  let ?P = "example_platform"
  have w: "vec ?W = [0, pi / 2]" "out ?W = [0, pi / 2]" "seen_vec ?W = []"
    by (simp_all add: example_observed_trig_world_def)
  have d: "v1 ?D = [1, 2]" "v2 ?D = [3, 4]" "seen_v1_v2 ?D = []"
    by (simp_all add: example_observed_dot_world_def)
  obtain r s1 where a: "trig_lambda Par ?P ?W = Inr (r, s1)"
    using trig_lambda_success [of ?W Par ?P] w by auto
  obtain r2 d1 where b: "dot_lambda Par ?D = Inr (r2, d1)"
    using dot_lambda_success [of ?D Par] d by auto
  obtain line os1 where c: "RunAndMeasure ?P ''pstl::execution::par'' (observing_vec (trig_lambda Par ?P)) ?W
      = Inr (line, os1)"
    using RunAndMeasure_success [of "\<lambda>s. length (out s) = length (vec s) \<and> vec s \<noteq> []"
        "observing_vec (trig_lambda Par ?P)" ?P ?W "''pstl::execution::par''"]
      observing_trig_success [of _ Par ?P] w
    by (auto simp: now_def)
  obtain line2 od1 where e: "RunAndMeasure ?P ''pstl::execution::par'' (observing_v1_v2 (dot_lambda Par)) ?D
      = Inr (line2, od1)"
    using RunAndMeasure_success [of "\<lambda>s. length (v1 s) \<le> length (v2 s)"
        "observing_v1_v2 (dot_lambda Par)" ?P ?D "''pstl::execution::par''"]
      observing_dot_success [of _ Par] d
    by (auto simp: now_def)
  show ?thesis
    using closures_leave_inputs_unchanged [of Par ?P ?W r s1 ?D r2 d1 "''pstl::execution::par''" ?W line os1
        ?D line2 od1] a b c e w d
    by simp
qed

text \<open>
  C9 (where the code departs from it).  With an empty buffer the first invocation of
  the timed trigonometric closure reads \<^verbatim>\<open>out[0]\<close> outside the vector.
\<close>

theorem TestTrig_empty_buffer_out_of_range:
  "TestTrig P 0 e = Inl Out_Of_Range"
  by (simp add: TestTrig_def new_vector_def copy_vector_def std_generate_def exec_order_def RunAndMeasure_def
      trig_lambda_def trig_transform_def std_transform_def trig_world_of_def)

subsection \<open>The process entry\<close>

lemma assign_in_order_length: "length (fst (assign_in_order gen ord xs s)) = length xs"
  by (induction ord arbitrary: xs s) (simp_all split: prod.splits)

lemma std_generate_length: "std_generate pol gen xs e = (ys, e1) \<Longrightarrow> length ys = length xs"
  by (auto simp: std_generate_def split: prod.splits) (metis assign_in_order_length fst_conv)

lemma trig_trial_success:
  fixes s :: "('d::times, 'g) trig_world"
  assumes "length (out s) = length (vec s) \<and> vec s \<noteq> []"
  shows "\<exists>line s1. RunAndMeasure P title (trig_lambda pol P) s = Inr (line, s1)
           \<and> (length (out s1) = length (vec s1) \<and> vec s1 \<noteq> [])"
proof (rule RunAndMeasure_success [where I = "\<lambda>s. length (out s) = length (vec s) \<and> vec s \<noteq> []"])
  show "\<exists>r s1. trig_lambda pol P w = Inr (r, s1) \<and> (length (out s1) = length (vec s1) \<and> vec s1 \<noteq> [])"
    if "length (out w) = length (vec w) \<and> vec w \<noteq> []" for w :: "('d, 'g) trig_world"
    using trig_lambda_success [of w pol P] that by blast
  show "length (out (snd (now P w))) = length (vec (snd (now P w))) \<and> vec (snd (now P w)) \<noteq> []"
    if "length (out w) = length (vec w) \<and> vec w \<noteq> []" for w :: "('d, 'g) trig_world"
    using that by (simp add: now_def)
  show "length (out s) = length (vec s) \<and> vec s \<noteq> []" by (rule assms)
qed

lemma dot_trial_success:
  fixes s :: "('d::{zero,plus,times}, 'g) dot_world"
  assumes "length (v1 s) \<le> length (v2 s)"
  shows "\<exists>line s1. RunAndMeasure P title (dot_lambda pol) s = Inr (line, s1)
           \<and> length (v1 s1) \<le> length (v2 s1)"
proof (rule RunAndMeasure_success [where I = "\<lambda>s. length (v1 s) \<le> length (v2 s)"])
  show "\<exists>r s1. dot_lambda pol w = Inr (r, s1) \<and> length (v1 s1) \<le> length (v2 s1)"
    if "length (v1 w) \<le> length (v2 w)" for w :: "('d, 'g) dot_world"
    using dot_lambda_success [OF that, of pol] that by auto
  show "length (v1 (snd (now P w))) \<le> length (v2 (snd (now P w)))"
    if "length (v1 w) \<le> length (v2 w)" for w :: "('d, 'g) dot_world"
    using that by (simp add: now_def)
  show "length (v1 s) \<le> length (v2 s)" by (rule assms)
qed

lemma new_vector_granted:
  "n \<le> max_size P elem \<Longrightarrow> n = 0 \<or> allocates P held (n * elem)
     \<Longrightarrow> new_vector P held elem n x = Inr (replicate n x)"
  by (auto simp: new_vector_def)

lemma copy_vector_granted:
  "xs = [] \<or> allocates P held (length xs * elem) \<Longrightarrow> copy_vector P held elem xs = Inr xs"
  by (auto simp: copy_vector_def)

lemma TestTrig_success:
  assumes "1 \<le> n" "two_buffers_granted P n"
  shows "\<exists>printed e1. TestTrig P n e = Inr (printed, e1)"
proof -
  have nv: "new_vector P 0 8 n (d_lit P 0.5) = Inr (replicate n (d_lit P 0.5))"
    using assms(2) by (intro new_vector_granted) (auto simp: two_buffers_granted_def)
  obtain vec1 e1 where g: "std_generate Seq (GenRandomFloat P (d_lit P 0) (d_lit P (0.5 * pi)))
      (replicate n (d_lit P 0.5)) e = (vec1, e1)"
    by (metis prod.exhaust)
  have l: "length vec1 = n" using std_generate_length [OF g] by simp
  have cv: "copy_vector P (n * 8) 8 vec1 = Inr vec1"
    using assms l by (intro copy_vector_granted) (auto simp: two_buffers_granted_def)
  have i0: "length (out (trig_world_of e1 vec1 vec1)) = length (vec (trig_world_of e1 vec1 vec1))
      \<and> vec (trig_world_of e1 vec1 vec1) \<noteq> []"
    using assms(1) l by (auto simp: trig_world_of_def)
  obtain line1 s1 where r1: "RunAndMeasure P ''pstl::execution::seq'' (trig_lambda Seq P)
      (trig_world_of e1 vec1 vec1) = Inr (line1, s1)" "length (out s1) = length (vec s1) \<and> vec s1 \<noteq> []"
    using trig_trial_success [OF i0] by blast
  obtain line2 s2 where r2: "RunAndMeasure P ''pstl::execution::par'' (trig_lambda Par P) s1 = Inr (line2, s2)"
    "length (out s2) = length (vec s2) \<and> vec s2 \<noteq> []"
    using trig_trial_success [OF r1(2)] by blast
  obtain line3 s3 where r3: "RunAndMeasure P ''std::transform seq'' (trig_lambda Seq P) s2 = Inr (line3, s3)"
    "length (out s3) = length (vec s3) \<and> vec s3 \<noteq> []"
    using trig_trial_success [OF r2(2)] by blast
  obtain line4 s4 where r4: "RunAndMeasure P ''std::transform par'' (trig_lambda Par P) s3 = Inr (line4, s4)"
    using trig_trial_success [OF r3(2)] by blast
  show ?thesis
    unfolding TestTrig_def nv using g cv r1(1) r2(1) r3(1) r4 by simp
qed

lemma TestDotProduct_success:
  assumes "two_buffers_granted P n"
  shows "\<exists>printed e1. TestDotProduct P n e = Inr (printed, e1)"
proof -
  have nv: "new_vector P 0 8 n (0 :: 'a) = Inr (replicate n 0)"
    "new_vector P (n * 8) 8 n (0 :: 'a) = Inr (replicate n 0)"
    using assms by (auto intro!: new_vector_granted simp: two_buffers_granted_def)
  obtain a1 e1 where g1: "std_generate Par (random_number_generator P) (replicate n 0) e = (a1, e1)"
    by (metis prod.exhaust)
  obtain b1 e2 where g2: "std_generate Par (random_number_generator P) (replicate n 0) e1 = (b1, e2)"
    by (metis prod.exhaust)
  have "length a1 = n" "length b1 = n"
    using std_generate_length [OF g1] std_generate_length [OF g2] by simp_all
  then have i0: "length (v1 (dot_world_of e2 a1 b1)) \<le> length (v2 (dot_world_of e2 a1 b1))"
    by (simp add: dot_world_of_def)
  obtain line1 s1 where r1: "RunAndMeasure P ''pstl::execution::seq'' (dot_lambda Seq)
      (dot_world_of e2 a1 b1) = Inr (line1, s1)" "length (v1 s1) \<le> length (v2 s1)"
    using dot_trial_success [OF i0] by blast
  obtain line2 s2 where r2: "RunAndMeasure P ''pstl::execution::par'' (dot_lambda Par) s1 = Inr (line2, s2)"
    "length (v1 s2) \<le> length (v2 s2)"
    using dot_trial_success [OF r1(2)] by blast
  obtain line3 s3 where r3: "RunAndMeasure P ''std::execution::seq'' (dot_lambda Seq) s2 = Inr (line3, s3)"
    "length (v1 s3) \<le> length (v2 s3)"
    using dot_trial_success [OF r2(2)] by blast
  obtain line4 s4 where r4: "RunAndMeasure P ''std::execution::par'' (dot_lambda Par) s3 = Inr (line4, s4)"
    using dot_trial_success [OF r3(2)] by blast
  show ?thesis
    unfolding TestDotProduct_def nv using g1 g2 r1(1) r2(1) r3(1) r4 by (simp add: Let_def)
qed

lemma atoi_digits_none: "\<forall>c\<in>set cs. \<not> is_digit c \<Longrightarrow> atoi_digits acc cs = acc"
  by (cases cs) auto

lemma atoi_no_digits:
  assumes "\<forall>c\<in>set str. \<not> is_digit c"
  shows "atoi str = 0"
proof -
  define s1 where "s1 = dropWhile is_space str"
  have nd: "\<forall>c\<in>set s1. \<not> is_digit c"
    unfolding s1_def using assms set_dropWhileD by fast
  have r: "(case s1 of
              [] \<Rightarrow> 0
            | c # cs \<Rightarrow>
                if c = CHR ''-'' then - atoi_digits 0 cs
                else if c = CHR ''+'' then atoi_digits 0 cs
                else atoi_digits 0 s1) = 0"
  proof (cases s1)
    case Nil
    then show ?thesis by simp
  next
    case (Cons c cs)
    have "atoi_digits 0 cs = 0" using nd Cons by (intro atoi_digits_none) simp
    moreover have "atoi_digits 0 s1 = 0" using nd by (intro atoi_digits_none) simp
    ultimately show ?thesis using Cons by simp
  qed
  show ?thesis
    unfolding atoi_def strtol_def Let_def s1_def [symmetric] r by (simp add: int_of_int64_def)
qed

lemma main_steps:
  assumes "parse_vecSize argv = n" "parse_step argv = step"
  shows "main P argv e =
     (case (if step = 0 \<or> step = 2 then TestTrig P n e else Inr ([], e)) of
        Inl err \<Rightarrow> Inl err
      | Inr (printed1, e1) \<Rightarrow>
     (case (if step = 0 \<or> step = 3 then TestDotProduct P n e1 else Inr ([], e1)) of
        Inl err \<Rightarrow> Inl err
      | Inr (printed2, e2) \<Rightarrow>
          Inr (0, [Count n, Text [CHR 0x0A]] @ printed1 @ printed2, e2)))"
  using assms by (simp add: main_def Let_def)

lemma main_returns_zero: "main P argv e = Inr (code, printed, e1) \<Longrightarrow> code = 0"
  by (auto simp: main_def Let_def split: sum.splits prod.splits if_splits)

lemma atoi_examples:
  "atoi ''3'' = 3" "atoi ''2'' = 2" "atoi ''9'' = 9" "atoi ''abc'' = 0" "atoi ''-1'' = - 1"
  by (simp_all add: atoi_def strtol_def int_of_int64_def is_space_def is_digit_def
      signed_take_bit_eq_take_bit_shift)

text \<open>
  When the allocator grants the first buffer and refuses the copy, the trigonometric test
  ends with \<^verbatim>\<open>std::bad_alloc\<close>, and so does the process: on the example platform, for
  instance, with the size 2147483647.
\<close>

lemma TestTrig_bad_alloc:
  assumes "1 \<le> n" "n \<le> max_size P 8" "allocates P 0 (n * 8)" "\<not> allocates P (n * 8) (n * 8)"
  shows "TestTrig P n e = Inl Bad_Alloc"
proof -
  have nv: "new_vector P 0 8 n (d_lit P 0.5) = Inr (replicate n (d_lit P 0.5))"
    using assms(2,3) by (intro new_vector_granted) simp_all
  obtain vec1 e1 where g: "std_generate Seq (GenRandomFloat P (d_lit P 0) (d_lit P (0.5 * pi)))
      (replicate n (d_lit P 0.5)) e = (vec1, e1)"
    by (metis prod.exhaust)
  have l: "length vec1 = n" using std_generate_length [OF g] by simp
  then have "vec1 \<noteq> []" using assms(1) by auto
  then have cv: "copy_vector P (n * 8) 8 vec1 = Inl Bad_Alloc"
    using assms(4) l by (simp add: copy_vector_def)
  show ?thesis
    unfolding TestTrig_def nv using g cv by simp
qed

lemma main_bad_alloc_example:
  "main example_platform [''IntelParSTL'', ''2147483647''] example_env = Inl Bad_Alloc"
proof -
  have a: "atoi ''2147483647'' = 2147483647"
    by (simp add: atoi_def strtol_def int_of_int64_def is_space_def is_digit_def
        signed_take_bit_eq_take_bit_shift)
  have p: "parse_vecSize [''IntelParSTL'', ''2147483647''] = 2147483647"
    "parse_step [''IntelParSTL'', ''2147483647''] = 0"
    by (simp_all add: parse_vecSize_def parse_step_def a size_t_of_int_def)
  have "TestTrig example_platform 2147483647 example_env = Inl Bad_Alloc"
    by (rule TestTrig_bad_alloc) (simp_all add: example_platform_def)
  then show ?thesis using main_steps [OF p, of example_platform example_env] by simp
qed

text \<open>
  C6 (as stated).  Not every argument vector ends with exit code 0: the size argument
  \<^verbatim>\<open>-1\<close> converts to the largest \<^verbatim>\<open>size_t\<close>, and the construction of the first vector
  ends the process with an uncaught \<^verbatim>\<open>std::length_error\<close>.
\<close>

theorem main_exit_code_counterexample:
  "main example_platform [''IntelParSTL'', ''-1''] example_env = Inl Length_Error"
  by (simp add: main_def parse_vecSize_def parse_step_def atoi_examples
      size_t_of_int_def TestTrig_def new_vector_def example_platform_def)

text \<open>
  C6 (amended).  Take any argument vector, with the size \<open>n\<close> and the step it is read
  as.  If the step selects a test (0, 2 or 3), let the allocator grant the two buffers
  of \<open>n\<close> elements (\<open>n\<close> at most \<^verbatim>\<open>max_size()\<close>), and let \<open>n\<close> be at least 1 when the
  trigonometric test is selected.  Then the process exits with code 0 after printing
  the size; step 0 runs the trigonometric and then the dot-product test, step 2 only the
  trigonometric test, step 3 only the dot-product test, any other step no test at all.
  Whenever the process exits, the code is 0.  Without arguments the size is 6,000,000
  and the step is 0.  An argument without any digit is read as 0, with no diagnosis.
\<close>

theorem main_exit_code_and_steps:
  assumes "parse_vecSize argv = n" and "parse_step argv = step"
    and "step = 0 \<or> step = 2 \<or> step = 3 \<longrightarrow> two_buffers_granted P n"
    and "step = 0 \<or> step = 2 \<longrightarrow> 1 \<le> n"
  shows "(\<exists>printed e1. main P argv e = Inr (0, printed, e1))
       \<and> (step = 0 \<longrightarrow> (\<exists>p1 e1 p2 e2. TestTrig P n e = Inr (p1, e1) \<and> TestDotProduct P n e1 = Inr (p2, e2)
              \<and> main P argv e = Inr (0, [Count n, Text [CHR 0x0A]] @ p1 @ p2, e2)))
       \<and> (step = 2 \<longrightarrow> (\<exists>p1 e1. TestTrig P n e = Inr (p1, e1)
              \<and> main P argv e = Inr (0, [Count n, Text [CHR 0x0A]] @ p1, e1)))
       \<and> (step = 3 \<longrightarrow> (\<exists>p2 e2. TestDotProduct P n e = Inr (p2, e2)
              \<and> main P argv e = Inr (0, [Count n, Text [CHR 0x0A]] @ p2, e2)))
       \<and> (step \<noteq> 0 \<and> step \<noteq> 2 \<and> step \<noteq> 3 \<longrightarrow> main P argv e = Inr (0, [Count n, Text [CHR 0x0A]], e))
       \<and> (\<forall>code printed e1. main P argv' e' = Inr (code, printed, e1) \<longrightarrow> code = 0)
       \<and> parse_vecSize [prog] = 6000000 \<and> parse_step [prog] = 0
       \<and> ((\<forall>c\<in>set str. \<not> is_digit c) \<longrightarrow> atoi str = 0)"
proof -
  note m = main_steps [OF assms(1,2), of P e]
  have s0: "step = 0 \<longrightarrow> (\<exists>p1 e1 p2 e2. TestTrig P n e = Inr (p1, e1) \<and> TestDotProduct P n e1 = Inr (p2, e2)
              \<and> main P argv e = Inr (0, [Count n, Text [CHR 0x0A]] @ p1 @ p2, e2))"
  proof
    assume st: "step = 0"
    then have g: "two_buffers_granted P n" and "1 \<le> n" using assms(3,4) by simp_all
    then obtain p1 e1 where a: "TestTrig P n e = Inr (p1, e1)"
      using TestTrig_success by blast
    obtain p2 e2 where b: "TestDotProduct P n e1 = Inr (p2, e2)"
      using TestDotProduct_success [OF g] by blast
    show "\<exists>p1 e1 p2 e2. TestTrig P n e = Inr (p1, e1) \<and> TestDotProduct P n e1 = Inr (p2, e2)
              \<and> main P argv e = Inr (0, [Count n, Text [CHR 0x0A]] @ p1 @ p2, e2)"
      using a b st m by simp
  qed
  have s2: "step = 2 \<longrightarrow> (\<exists>p1 e1. TestTrig P n e = Inr (p1, e1)
              \<and> main P argv e = Inr (0, [Count n, Text [CHR 0x0A]] @ p1, e1))"
  proof
    assume st: "step = 2"
    then have g: "two_buffers_granted P n" and "1 \<le> n" using assms(3,4) by simp_all
    then obtain p1 e1 where a: "TestTrig P n e = Inr (p1, e1)"
      using TestTrig_success by blast
    show "\<exists>p1 e1. TestTrig P n e = Inr (p1, e1) \<and> main P argv e = Inr (0, [Count n, Text [CHR 0x0A]] @ p1, e1)"
      using a st m by simp
  qed
  have s3: "step = 3 \<longrightarrow> (\<exists>p2 e2. TestDotProduct P n e = Inr (p2, e2)
              \<and> main P argv e = Inr (0, [Count n, Text [CHR 0x0A]] @ p2, e2))"
  proof
    assume st: "step = 3"
    then have g: "two_buffers_granted P n" using assms(3) by simp
    obtain p2 e2 where b: "TestDotProduct P n e = Inr (p2, e2)"
      using TestDotProduct_success [OF g] by blast
    show "\<exists>p2 e2. TestDotProduct P n e = Inr (p2, e2) \<and> main P argv e = Inr (0, [Count n, Text [CHR 0x0A]] @ p2, e2)"
      using b st m by simp
  qed
  have s9: "step \<noteq> 0 \<and> step \<noteq> 2 \<and> step \<noteq> 3 \<longrightarrow> main P argv e = Inr (0, [Count n, Text [CHR 0x0A]], e)"
    using m by simp
  have ex: "\<exists>printed e1. main P argv e = Inr (0, printed, e1)"
  proof (cases "step = 0 \<or> step = 2 \<or> step = 3")
    case True
    then show ?thesis using s0 s2 s3 by blast
  next
    case False
    then show ?thesis using s9 by simp
  qed
  have rz: "\<forall>code printed e1. main P argv' e' = Inr (code, printed, e1) \<longrightarrow> code = 0"
    using main_returns_zero by blast
  have d: "parse_vecSize [prog] = 6000000 \<and> parse_step [prog] = 0"
    by (simp add: parse_vecSize_def parse_step_def)
  have z: "(\<forall>c\<in>set str. \<not> is_digit c) \<longrightarrow> atoi str = 0"
    using atoi_no_digits by blast
  show ?thesis using ex s0 s2 s3 s9 rz d z by blast
qed

theorem main_exit_code_and_steps_witness:
  "(\<exists>p1 e1 p2 e2. TestTrig example_platform 6000000 example_env = Inr (p1, e1)
        \<and> TestDotProduct example_platform 6000000 e1 = Inr (p2, e2)
        \<and> main example_platform [''IntelParSTL''] example_env
            = Inr (0, [Count 6000000, Text [CHR 0x0A]] @ p1 @ p2, e2))
   \<and> (\<exists>p1 e1. TestTrig example_platform 3 example_env = Inr (p1, e1)
        \<and> main example_platform [''IntelParSTL'', ''3'', ''2''] example_env
            = Inr (0, [Count 3, Text [CHR 0x0A]] @ p1, e1))
   \<and> (\<exists>p2 e2. TestDotProduct example_platform 0 example_env = Inr (p2, e2)
        \<and> main example_platform [''IntelParSTL'', ''abc'', ''3''] example_env
            = Inr (0, [Count 0, Text [CHR 0x0A]] @ p2, e2))
   \<and> main example_platform [''IntelParSTL'', ''-1'', ''9''] example_env
        = Inr (0, [Count 18446744073709551615, Text [CHR 0x0A]], example_env)
   \<and> atoi ''abc'' = 0"
proof -
  have a: "parse_vecSize [''IntelParSTL''] = 6000000" "parse_step [''IntelParSTL''] = 0"
    by (simp_all add: parse_vecSize_def parse_step_def)
  have b: "parse_vecSize [''IntelParSTL'', ''3'', ''2''] = 3" "parse_step [''IntelParSTL'', ''3'', ''2''] = 2"
    by (simp_all add: parse_vecSize_def parse_step_def atoi_examples size_t_of_int_def)
  have c: "parse_vecSize [''IntelParSTL'', ''abc'', ''3''] = 0" "parse_step [''IntelParSTL'', ''abc'', ''3''] = 3"
    by (simp_all add: parse_vecSize_def parse_step_def atoi_examples size_t_of_int_def)
  have d: "parse_vecSize [''IntelParSTL'', ''-1'', ''9''] = 18446744073709551615"
    "parse_step [''IntelParSTL'', ''-1'', ''9''] = 9"
    by (simp_all add: parse_vecSize_def parse_step_def atoi_examples size_t_of_int_def)
  have g: "two_buffers_granted example_platform 6000000" "two_buffers_granted example_platform 3"
    "two_buffers_granted example_platform 0"
    by (simp_all add: two_buffers_granted_def example_platform_def)
  have nd: "\<forall>c\<in>set ''abc''. \<not> is_digit c" by (simp add: is_digit_def)
  show ?thesis
    using main_exit_code_and_steps [OF a, of example_platform example_env "[]" example_env "''x''" "''abc''"]
      main_exit_code_and_steps [OF b, of example_platform example_env "[]" example_env "''x''" "''abc''"]
      main_exit_code_and_steps [OF c, of example_platform example_env "[]" example_env "''x''" "''abc''"]
      main_exit_code_and_steps [OF d, of example_platform example_env "[]" example_env "''x''" "''abc''"]
      g nd
    by simp
qed

subsection \<open>Empty buffers in the other operations\<close>

lemma trig_body_empty:
  "vec s = [] \<Longrightarrow> out s = [] \<Longrightarrow> \<exists>s1. trig_body pol P s = Inr s1 \<and> out s1 = [] \<and> vec s1 = []"
  by (simp add: trig_body_def trig_transform_map)

lemma sort_loop_empty: "state_loop iterations (sort_body pol) [] = Inr []"
  by (induction iterations) (simp_all add: sort_body_def)

lemma dot_lambda_empty:
  "v1 s = [] \<Longrightarrow> \<exists>s1. dot_lambda pol s = Inr (0, s1)"
  by (cases pol) (auto simp: dot_lambda_def std_transform_reduce_def Let_def split: prod.splits)

lemma TestDotProduct_empty: "\<exists>printed e1. TestDotProduct P 0 e = Inr (printed, e1)"
  by (rule TestDotProduct_success) (simp add: two_buffers_granted_def)

lemma pricing_body_empty:
  assumes "pricing_sizes 0 s"
  shows "\<exists>s1. pricing_body pol P 0 s = Inr s1 \<and> profit s1 = []"
proof -
  obtain sa where sa: "std_for_each pol (populate P) (counting_range 0) s = Inr sa" "pricing_sizes 0 sa"
    using std_for_each_populate_ok [of 0 s pol P] assms by auto
  have "std_transform pol (profit_fn P sa) (counting_range 0) (profit sa) (tape sa)
      = Inr ([], snd (exec_order pol (tape sa) 0))"
    using sa(2) std_transform_ok [of "[]" "profit_fn P sa" "\<lambda>i. undefined" "[]" pol "tape sa"]
    by (simp add: counting_range_def pricing_sizes_def)
  then show ?thesis using sa by (simp add: pricing_body_def)
qed

subsection \<open>The benchmark functions as a whole\<close>

lemma trig_loop_result:
  "length (out s) = length (vec s) \<Longrightarrow>
   \<exists>s1. state_loop k (trig_body pol P) s = Inr s1 \<and> vec s1 = vec s
        \<and> length (out s1) = length (vec s) \<and> (0 < k \<longrightarrow> out s1 = map (trig_fn P) (vec s))"
proof (induction k arbitrary: s)
  case 0
  then show ?case by simp
next
  case (Suc k)
  obtain tp1 where b: "trig_body pol P s = Inr (s\<lparr>tape := tp1, out := map (trig_fn P) (vec s)\<rparr>)"
    using Suc.prems by (simp add: trig_body_def trig_transform_map)
  let ?s = "s\<lparr>tape := tp1, out := map (trig_fn P) (vec s)\<rparr>"
  have "length (out ?s) = length (vec ?s)" by simp
  from Suc.IH [OF this] obtain s1 where s1: "state_loop k (trig_body pol P) ?s = Inr s1"
    "vec s1 = vec ?s" "length (out s1) = length (vec ?s)" "0 < k \<longrightarrow> out s1 = map (trig_fn P) (vec ?s)"
    by blast
  have "out s1 = map (trig_fn P) (vec s)"
  proof (cases k)
    case 0
    then show ?thesis using s1(1) by auto
  next
    case (Suc j)
    then show ?thesis using s1(4) by simp
  qed
  then show ?case using b s1 by simp
qed

lemma BM_Trigonometry_result:
  assumes "two_buffers_granted P range0" "0 < iterations"
  shows "\<exists>s. BM_Trigonometry pol P range0 iterations e = Inr s \<and> length (vec s) = range0
           \<and> out s = map (trig_fn P) (vec s)"
proof -
  have nv: "new_vector P 0 8 range0 (d_lit P 0.5) = Inr (replicate range0 (d_lit P 0.5))"
    using assms(1) by (intro new_vector_granted) (auto simp: two_buffers_granted_def)
  obtain vec1 e1 where g: "std_generate Seq (GenRandomFloat P (d_lit P 0) (d_lit P (0.5 * pi)))
      (replicate range0 (d_lit P 0.5)) e = (vec1, e1)"
    by (metis prod.exhaust)
  have l: "length vec1 = range0" using std_generate_length [OF g] by simp
  have cv: "copy_vector P (range0 * 8) 8 vec1 = Inr vec1"
    using assms(1) l by (intro copy_vector_granted) (auto simp: two_buffers_granted_def)
  have "length (out (trig_world_of e1 vec1 vec1)) = length (vec (trig_world_of e1 vec1 vec1))"
    by (simp add: trig_world_of_def)
  from trig_loop_result [OF this, of iterations pol P] obtain s1 where
    "state_loop iterations (trig_body pol P) (trig_world_of e1 vec1 vec1) = Inr s1"
    "vec s1 = vec1" "out s1 = map (trig_fn P) vec1"
    using assms(2) by (auto simp: trig_world_of_def)
  then show ?thesis
    unfolding BM_Trigonometry_def nv using g l cv by simp
qed

lemma BM_SortPoints_result:
  fixes P :: "('d::{linorder,plus,minus,times}, 'g, 'tm) platform"
  assumes "range0 \<le> max_size P 16" "range0 = 0 \<or> allocates P 0 (range0 * 16)" "0 < iterations"
  shows "\<exists>points e1. BM_SortPoints pol P range0 iterations e = Inr (points, e1)
           \<and> length points = range0 \<and> sorted (map vec4_x points)"
proof -
  let ?p = "Vec4 (d_lit P 0) (d_lit P 1) (d_lit P 0) (d_lit P 1)"
  have nv: "new_vector P 0 16 range0 ?p = Inr (replicate range0 ?p)"
    using assms(1,2) by (rule new_vector_granted)
  obtain points1 e1 where g: "std_generate Seq (gen_point P) (replicate range0 ?p) e = (points1, e1)"
    by (metis prod.exhaust)
  have l: "length points1 = range0" using std_generate_length [OF g] by simp
  obtain k where k: "iterations = Suc k" using assms(3) by (cases iterations) auto
  obtain qs where q: "state_loop k (sort_body pol) (std_sort pol less_x points1) = Inr qs"
    "mset qs = mset (std_sort pol less_x points1)"
    "sorted (map vec4_x (std_sort pol less_x points1)) \<longrightarrow> sorted (map vec4_x qs)"
    using sort_loop_result by blast
  have s: "sorted (map vec4_x qs)" using q(3) std_sort_sorted by blast
  have "length qs = range0" using q(2) l by (metis std_sort_mset size_mset)
  then show ?thesis
    unfolding BM_SortPoints_def nv k using g q(1) s by (simp add: sort_body_def)
qed

lemma dot_loop_runs:
  "length (v1 s) \<le> length (v2 s) \<Longrightarrow>
   \<exists>s1. state_loop k (dot_body pol) s = Inr s1 \<and> v1 s1 = v1 s \<and> v2 s1 = v2 s"
proof (induction k arbitrary: s)
  case 0
  then show ?case by simp
next
  case (Suc k)
  have "\<exists>r tp1. std_transform_reduce pol (v1 s) (v2 s) 0 (+) (*) (tape s) = Inr (r, tp1)"
    using Suc.prems
    by (cases pol) (auto simp: std_transform_reduce_def Let_def split: prod.splits list.splits)
  then obtain tp1 where b: "dot_body pol s = Inr (s\<lparr>tape := tp1\<rparr>)"
    by (auto simp: dot_body_def)
  have "length (v1 (s\<lparr>tape := tp1\<rparr>)) \<le> length (v2 (s\<lparr>tape := tp1\<rparr>))" using Suc.prems by simp
  from Suc.IH [OF this] show ?case using b by simp
qed

lemma BM_DotProduct_runs:
  assumes "two_buffers_granted P range0"
  shows "\<exists>s. BM_DotProduct pol P range0 iterations e = Inr s \<and> length (v1 s) = range0 \<and> length (v2 s) = range0"
proof -
  have nv: "new_vector P 0 8 range0 (0 :: 'a) = Inr (replicate range0 0)"
    "new_vector P (range0 * 8) 8 range0 (0 :: 'a) = Inr (replicate range0 0)"
    using assms by (auto intro!: new_vector_granted simp: two_buffers_granted_def)
  obtain a1 e1 where g1: "std_generate Par (GenRandomFloat P (d_lit P (- 1)) (d_lit P 1)) (replicate range0 0) e = (a1, e1)"
    by (metis prod.exhaust)
  obtain b1 e2 where g2: "std_generate Par (GenRandomFloat P (d_lit P (- 1)) (d_lit P 1)) (replicate range0 0) e1 = (b1, e2)"
    by (metis prod.exhaust)
  have l: "length a1 = range0" "length b1 = range0"
    using std_generate_length [OF g1] std_generate_length [OF g2] by simp_all
  then have "length (v1 (dot_world_of e2 a1 b1)) \<le> length (v2 (dot_world_of e2 a1 b1))"
    by (simp add: dot_world_of_def)
  from dot_loop_runs [OF this, of iterations pol] obtain s1 where
    "state_loop iterations (dot_body pol) (dot_world_of e2 a1 b1) = Inr s1" "v1 s1 = a1" "v2 s1 = b1"
    by (auto simp: dot_world_of_def)
  then show ?thesis
    unfolding BM_DotProduct_def nv using g1 g2 l by (simp add: Let_def)
qed

lemma pricing_loop_result:
  assumes "VecSize \<le> 2 ^ 31"
  shows "pricing_sizes VecSize s \<Longrightarrow>
   \<exists>s1. state_loop k (pricing_body pol P VecSize) s = Inr s1 \<and> pricing_sizes VecSize s1
        \<and> (0 < k \<longrightarrow> (\<forall>i<VecSize. profit s1 ! i
               = (prices s1 ! i * (1 - discounts s1 ! i)) * d_of_uint P (quantities s1 ! i)))"
proof (induction k arbitrary: s)
  case 0
  then show ?case by simp
next
  case (Suc k)
  from pricing_body_result [OF assms Suc.prems, of pol P] obtain sa where
    sa: "pricing_body pol P VecSize s = Inr sa" "pricing_sizes VecSize sa"
    "\<forall>i<VecSize. profit sa ! i = (prices sa ! i * (1 - discounts sa ! i)) * d_of_uint P (quantities sa ! i)"
    by blast
  from Suc.IH [OF sa(2)] obtain s1 where
    s1: "state_loop k (pricing_body pol P VecSize) sa = Inr s1" "pricing_sizes VecSize s1"
    "0 < k \<longrightarrow> (\<forall>i<VecSize. profit s1 ! i = (prices s1 ! i * (1 - discounts s1 ! i)) * d_of_uint P (quantities s1 ! i))"
    by blast
  have "\<forall>i<VecSize. profit s1 ! i = (prices s1 ! i * (1 - discounts s1 ! i)) * d_of_uint P (quantities s1 ! i)"
  proof (cases k)
    case 0
    then show ?thesis using s1(1) sa(3) by auto
  next
    case (Suc j)
    then show ?thesis using s1(3) by simp
  qed
  then show ?case using sa(1) s1(1,2) by simp
qed

lemma BM_CountingIter_result:
  assumes "VecSize \<le> max_size P 8" "VecSize \<le> max_size P 4"
    and "VecSize = 0 \<or> (allocates P 0 (VecSize * 8) \<and> allocates P (VecSize * 8) (VecSize * 4)
           \<and> allocates P (VecSize * 12) (VecSize * 8) \<and> allocates P (VecSize * 20) (VecSize * 8))"
    and "VecSize \<le> 2 ^ 31" "0 < iterations"
  shows "\<exists>s. BM_CountingIter pol P VecSize iterations e = Inr s
           \<and> (\<forall>i<VecSize. profit s ! i = (prices s ! i * (1 - discounts s ! i)) * d_of_uint P (quantities s ! i))"
proof -
  have nv: "new_vector P 0 8 VecSize (0 :: 'a) = Inr (replicate VecSize 0)"
    "new_vector P (VecSize * 8) 4 VecSize (0 :: nat) = Inr (replicate VecSize 0)"
    "new_vector P (VecSize * 12) 8 VecSize (0 :: 'a) = Inr (replicate VecSize 0)"
    "new_vector P (VecSize * 20) 8 VecSize (0 :: 'a) = Inr (replicate VecSize 0)"
    using assms(1,2,3) by (auto intro!: new_vector_granted)
  let ?s = "pricing_world_of e (replicate VecSize (0 :: 'a)) (replicate VecSize 0)
      (replicate VecSize 0) (replicate VecSize 0)"
  have "pricing_sizes VecSize ?s" by (simp add: pricing_sizes_def pricing_world_of_def)
  from pricing_loop_result [OF assms(4) this, of iterations pol P] assms(5)
  show ?thesis unfolding BM_CountingIter_def nv by auto
qed

subsection \<open>The generators\<close>





end
